theory Spec2Isabelle
  imports Complex_Main "HOL-Library.AList" "HOL-Library.Sublist"
begin

section \<open>Host language operations\<close>

text \<open>
  The program is TypeScript. Strings are modelled as \<^typ>\<open>string\<close>. The method
  \<open>toLowerCase\<close> of strings belongs to the host: every function of the program that calls
  it takes it as its first parameter, named \<open>toLowerCase\<close>, and every theorem holds for
  whatever function it is. The examples are in ASCII and take \<open>ascii_toLowerCase\<close> for it,
  which is the host's function on ASCII strings.
\<close>

type_synonym lower_casing = "string \<Rightarrow> string"

definition ascii_toLowerCase_char :: "char \<Rightarrow> char" where
  "ascii_toLowerCase_char c =
     (case map_of (zip ''ABCDEFGHIJKLMNOPQRSTUVWXYZ'' ''abcdefghijklmnopqrstuvwxyz'') c of
        Some l \<Rightarrow> l
      | None \<Rightarrow> c)"

definition ascii_toLowerCase :: "string \<Rightarrow> string" where
  "ascii_toLowerCase s = map ascii_toLowerCase_char s"

text \<open>\<open>hay.includes(needle)\<close>: the needle occurs as a contiguous part of the hay.\<close>

definition includes_str :: "string \<Rightarrow> string \<Rightarrow> bool" where
  "includes_str hay needle = sublist needle hay"

text \<open>
  \<open>Array.prototype.slice\<close> on integer arguments: a negative index counts from the end, and
  every index is clamped to the array.
\<close>

definition slice_index :: "int \<Rightarrow> nat \<Rightarrow> nat" where
  "slice_index i len = (if i < 0 then nat (max (int len + i) 0) else min (nat i) len)"

definition slice_from :: "int \<Rightarrow> 'a list \<Rightarrow> 'a list" where
  "slice_from start xs = drop (slice_index start (length xs)) xs"

definition slice :: "int \<Rightarrow> int \<Rightarrow> 'a list \<Rightarrow> 'a list" where
  "slice start stop xs =
     (let k = slice_index start (length xs); final = slice_index stop (length xs)
      in take (final - k) (drop k xs))"

text \<open>\<open>xs.splice(0, deleteCount)\<close>: removes the first \<open>deleteCount\<close> elements, clamped.\<close>

definition splice0 :: "int \<Rightarrow> 'a list \<Rightarrow> 'a list" where
  "splice0 deleteCount xs = drop (nat (min (max deleteCount 0) (int (length xs)))) xs"

text \<open>
  A page and a page size reach the program as numbers of the host, unchecked: a finite
  number, kept here as an exact rational (the rounding of doubles is left out), or \<open>NaN\<close>,
  which \<open>parseInt\<close> yields for text that is no number. A comparison with \<open>NaN\<close> is false,
  arithmetic on \<open>NaN\<close> gives \<open>NaN\<close>, and \<open>slice\<close> takes of each index its integer part
  (towards zero) and 0 for \<open>NaN\<close>. Message limits, time stamps and the bound of the
  store are integers.
\<close>

datatype number = Num rat | NaN

fun less_zero :: "number \<Rightarrow> bool" where
  "less_zero (Num r) = (r < 0)"
| "less_zero NaN = False"

fun less_eq_zero :: "number \<Rightarrow> bool" where
  "less_eq_zero (Num r) = (r \<le> 0)"
| "less_eq_zero NaN = False"

fun times_number :: "number \<Rightarrow> number \<Rightarrow> number" where
  "times_number (Num a) (Num b) = Num (a * b)"
| "times_number a b = NaN"

fun plus_number :: "number \<Rightarrow> number \<Rightarrow> number" where
  "plus_number (Num a) (Num b) = Num (a + b)"
| "plus_number a b = NaN"

fun ToIntegerOrInfinity :: "number \<Rightarrow> int" where
  "ToIntegerOrInfinity (Num r) = (if r < 0 then - floor (- r) else floor r)"
| "ToIntegerOrInfinity NaN = 0"

text \<open>
  A \<open>Date\<close> is a number of milliseconds, or the invalid date that \<open>new Date(s)\<close> yields for
  a string it cannot parse. Comparing with the invalid date is false in both directions.
\<close>

datatype Date = Date int | InvalidDate

fun ge_Date :: "int \<Rightarrow> Date \<Rightarrow> bool" where
  "ge_Date t (Date d) = (t \<ge> d)"
| "ge_Date t InvalidDate = False"

fun le_Date :: "int \<Rightarrow> Date \<Rightarrow> bool" where
  "le_Date t (Date d) = (t \<le> d)"
| "le_Date t InvalidDate = False"

text \<open>An optional string is truthy when it is present and not empty.\<close>

fun truthy :: "string option \<Rightarrow> bool" where
  "truthy None = False"
| "truthy (Some s) = (s \<noteq> [])"

section \<open>Message store\<close>

datatype tag_value = TagString string | TagBool bool | TagNull

text \<open>
  A stored message. Every message of the program is stamped with \<open>new Date()\<close>, a valid date,
  so \<open>timestamp\<close> is its millisecond value.
\<close>

record Message =
  msg_id :: string
  channel :: string
  username :: string
  message :: string
  timestamp :: int
  tags :: "(string \<times> tag_value) list"

record MessageFilter =
  filter_channel :: "string option"
  filter_username :: "string option"
  filter_contains :: "string option"
  filter_since :: "Date option"
  filter_until :: "Date option"
  filter_page :: "number option"
  filter_pageSize :: "number option"

text \<open>
  \<open>messages\<close> is a \<open>Map\<close> from channel to array: an association list in the order in which
  the keys were first set, which is the order \<open>values()\<close> walks. The bound is a count of
  messages, 1000 unless the constructor is given another.
\<close>

record MessageStore =
  messages :: "(string \<times> Message list) list"
  maxMessagesPerChannel :: nat

definition new_MessageStore :: "nat \<Rightarrow> MessageStore" where
  "new_MessageStore maxMessages = \<lparr>messages = [], maxMessagesPerChannel = maxMessages\<rparr>"

definition default_MessageStore :: MessageStore where
  "default_MessageStore = new_MessageStore 1000"

text \<open>\<open>this.messages.get(key) || []\<close>\<close>

definition history :: "MessageStore \<Rightarrow> string \<Rightarrow> Message list" where
  "history s key = (case map_of (messages s) key of Some ms \<Rightarrow> ms | None \<Rightarrow> [])"

definition addMessage ::
  "lower_casing \<Rightarrow> MessageStore \<Rightarrow> Message \<Rightarrow> MessageStore" where
  "addMessage toLowerCase s m =
     (let ch = toLowerCase (channel m);
          table = (if map_of (messages s) ch = None then AList.update ch [] (messages s)
                   else messages s)
      in case map_of table ch of
           None \<Rightarrow> s\<lparr>messages := table\<rparr>
         | Some channelMessages \<Rightarrow>
             let pushed = channelMessages @ [m];
                 pruned =
                   (if int (length pushed) > int (maxMessagesPerChannel s)
                    then splice0 (int (length pushed) - int (maxMessagesPerChannel s)) pushed
                    else pushed)
             in s\<lparr>messages := AList.update ch pruned table\<rparr>)"

definition getRecentMessages ::
  "lower_casing \<Rightarrow> MessageStore \<Rightarrow> string \<Rightarrow> int \<Rightarrow> Message list" where
  "getRecentMessages toLowerCase s ch limit =
     (let channelMessages = history s (toLowerCase ch)
      in sort_key timestamp
           (slice_from (- min limit (int (length channelMessages))) channelMessages))"

text \<open>The call with the limit left out: the default is 10.\<close>

definition getRecentMessages_default ::
  "lower_casing \<Rightarrow> MessageStore \<Rightarrow> string \<Rightarrow> Message list" where
  "getRecentMessages_default toLowerCase s ch = getRecentMessages toLowerCase s ch 10"

definition getAllMessages ::
  "lower_casing \<Rightarrow> MessageStore \<Rightarrow> string option \<Rightarrow> Message list" where
  "getAllMessages toLowerCase s ch =
     (if truthy ch then history s (toLowerCase (the ch))
      else sort_key timestamp (concat (map snd (messages s))))"

text \<open>The four filter steps of \<open>filterMessages\<close>, in the order of the source.\<close>

definition by_username ::
  "lower_casing \<Rightarrow> MessageFilter \<Rightarrow> Message list \<Rightarrow> Message list" where
  "by_username toLowerCase f ms =
     (if truthy (filter_username f)
      then filter (\<lambda>msg. includes_str (toLowerCase (username msg))
                                  (toLowerCase (the (filter_username f)))) ms
      else ms)"

definition by_contains ::
  "lower_casing \<Rightarrow> MessageFilter \<Rightarrow> Message list \<Rightarrow> Message list" where
  "by_contains toLowerCase f ms =
     (if truthy (filter_contains f)
      then filter (\<lambda>msg. includes_str (toLowerCase (message msg))
                                  (toLowerCase (the (filter_contains f)))) ms
      else ms)"

definition by_since :: "MessageFilter \<Rightarrow> Message list \<Rightarrow> Message list" where
  "by_since f ms =
     (case filter_since f of
        Some d \<Rightarrow> filter (\<lambda>msg. ge_Date (timestamp msg) d) ms
      | None \<Rightarrow> ms)"

definition by_until :: "MessageFilter \<Rightarrow> Message list \<Rightarrow> Message list" where
  "by_until f ms =
     (case filter_until f of
        Some d \<Rightarrow> filter (\<lambda>msg. le_Date (timestamp msg) d) ms
      | None \<Rightarrow> ms)"

definition paginate :: "MessageFilter \<Rightarrow> Message list \<Rightarrow> Message list" where
  "paginate f ms =
     (case filter_page f of
        None \<Rightarrow> ms
      | Some p \<Rightarrow>
          (case filter_pageSize f of
             None \<Rightarrow> ms
           | Some sz \<Rightarrow>
               let page = (if less_zero p then Num 0 else p);
                   pageSize = (if less_eq_zero sz then Num 10 else sz);
                   start = times_number page pageSize;
                   stop = plus_number start pageSize
               in slice (ToIntegerOrInfinity start) (ToIntegerOrInfinity stop) ms))"

text \<open>
  \<open>filter\<close> copies, \<open>sort\<close> works in place. When no filter step runs and the channel has a
  stored array, \<open>messages\<close> is that very array and the sort reorders the store.
\<close>

definition sorts_in_place ::
  "lower_casing \<Rightarrow> MessageStore \<Rightarrow> MessageFilter \<Rightarrow> bool" where
  "sorts_in_place toLowerCase s f =
     (truthy (filter_channel f)
      \<and> map_of (messages s) (toLowerCase (the (filter_channel f))) \<noteq> None
      \<and> \<not> truthy (filter_username f) \<and> \<not> truthy (filter_contains f)
      \<and> filter_since f = None \<and> filter_until f = None)"

definition filterMessages ::
  "lower_casing \<Rightarrow> MessageStore \<Rightarrow> MessageFilter \<Rightarrow> Message list \<times> MessageStore" where
  "filterMessages toLowerCase s f =
     (let sorted_msgs =
            sort_key timestamp
              (by_until f (by_since f (by_contains toLowerCase f (by_username toLowerCase f
                 (getAllMessages toLowerCase s (filter_channel f))))));
          s' = (if sorts_in_place toLowerCase s f
                then s\<lparr>messages :=
                       AList.update (toLowerCase (the (filter_channel f))) sorted_msgs (messages s)\<rparr>
                else s)
      in (paginate f sorted_msgs, s'))"

definition clearMessages ::
  "lower_casing \<Rightarrow> MessageStore \<Rightarrow> string option \<Rightarrow> MessageStore" where
  "clearMessages toLowerCase s ch =
     (if truthy ch then s\<lparr>messages := AList.delete (toLowerCase (the ch)) (messages s)\<rparr>
      else s\<lparr>messages := []\<rparr>)"

definition getMessageCount ::
  "lower_casing \<Rightarrow> MessageStore \<Rightarrow> string option \<Rightarrow> nat" where
  "getMessageCount toLowerCase s ch =
     (if truthy ch then length (history s (toLowerCase (the ch)))
      else foldl (\<lambda>count msgs. count + length msgs) 0 (map snd (messages s)))"

text \<open>
  To state what the store retains: the last \<open>n\<close> elements of a sequence, in their order.
\<close>

definition most_recent :: "nat \<Rightarrow> 'a list \<Rightarrow> 'a list" where
  "most_recent n xs = drop (length xs - n) xs"

text \<open>
  To state what a filter keeps: the match of one message against each criterion alone.
  A criterion that is absent (or an empty string) matches every message. Without regard
  to case means: after \<open>toLowerCase\<close> of the host on both sides.
\<close>

definition matches_username ::
  "lower_casing \<Rightarrow> MessageFilter \<Rightarrow> Message \<Rightarrow> bool" where
  "matches_username toLowerCase f m =
     (if truthy (filter_username f)
      then includes_str (toLowerCase (username m)) (toLowerCase (the (filter_username f)))
      else True)"

definition matches_contains ::
  "lower_casing \<Rightarrow> MessageFilter \<Rightarrow> Message \<Rightarrow> bool" where
  "matches_contains toLowerCase f m =
     (if truthy (filter_contains f)
      then includes_str (toLowerCase (message m)) (toLowerCase (the (filter_contains f)))
      else True)"

definition matches_since :: "MessageFilter \<Rightarrow> Message \<Rightarrow> bool" where
  "matches_since f m =
     (case filter_since f of Some d \<Rightarrow> ge_Date (timestamp m) d | None \<Rightarrow> True)"

definition matches_until :: "MessageFilter \<Rightarrow> Message \<Rightarrow> bool" where
  "matches_until f m =
     (case filter_until f of Some d \<Rightarrow> le_Date (timestamp m) d | None \<Rightarrow> True)"

text \<open>
  For an integer page size: the page size in force, and the number of pages that are not
  empty.
\<close>

definition page_size :: "int \<Rightarrow> nat" where
  "page_size sz = (if sz \<le> 0 then 10 else nat sz)"

definition page_count :: "nat \<Rightarrow> nat \<Rightarrow> nat" where
  "page_count len sz = (len + sz - 1) div sz"

text \<open>Example messages: message \<open>i\<close> of channel \<open>foo\<close>, sent by \<open>ann\<close> at time \<open>i\<close>.\<close>

definition sample_message :: "int \<Rightarrow> Message" where
  "sample_message i =
     \<lparr>msg_id = ''m'', channel = ''foo'', username = ''ann'', message = ''hello'',
      timestamp = i, tags = []\<rparr>"

definition sample_store :: MessageStore where
  "sample_store =
     foldl (addMessage ascii_toLowerCase) default_MessageStore
       [sample_message 1, sample_message 2, sample_message 3, sample_message 4,
        sample_message 5]"

text \<open>
  A second example: four messages in two channels, the last one stamped earlier than
  the others.
\<close>

definition chat_message ::
  "string \<Rightarrow> string \<Rightarrow> string \<Rightarrow> int \<Rightarrow> Message" where
  "chat_message ch user txt t =
     \<lparr>msg_id = ''m'', channel = ch, username = user, message = txt, timestamp = t, tags = []\<rparr>"

definition sample_chat :: MessageStore where
  "sample_chat =
     foldl (addMessage ascii_toLowerCase) default_MessageStore
       [chat_message ''Foo'' ''Ann'' ''Hello world'' 10,
        chat_message ''foo'' ''bob'' ''hello Ann'' 20,
        chat_message ''bar'' ''ANNA'' ''bye'' 15,
        chat_message ''foo'' ''joanne'' ''HELLO'' 5]"

text \<open>
  A third example, for the filter that asks for user name \<open>ANN\<close>, text \<open>hello\<close> and the
  time range from 5 to 15. Of its six messages the first and the last match every
  criterion, and each of the four between fails exactly one: the user name, the text,
  \<open>since\<close>, \<open>until\<close>, in this order.
\<close>

definition sample_criteria :: MessageStore where
  "sample_criteria =
     foldl (addMessage ascii_toLowerCase) default_MessageStore
       [chat_message ''foo'' ''Ann'' ''Hello world'' 10,
        chat_message ''foo'' ''bob'' ''hello Ann'' 12,
        chat_message ''bar'' ''ANNA'' ''bye'' 11,
        chat_message ''foo'' ''joanne'' ''HELLO'' 3,
        chat_message ''bar'' ''Annie'' ''hello'' 20,
        chat_message ''bar'' ''ann'' ''oh hello'' 7]"

definition no_filter :: MessageFilter where
  "no_filter =
     \<lparr>filter_channel = None, filter_username = None, filter_contains = None,
      filter_since = None, filter_until = None, filter_page = None, filter_pageSize = None\<rparr>"

definition criteria_filter :: MessageFilter where
  "criteria_filter =
     \<lparr>filter_channel = None, filter_username = Some ''ANN'', filter_contains = Some ''hello'',
      filter_since = Some (Date 5), filter_until = Some (Date 15), filter_page = None,
      filter_pageSize = None\<rparr>"

section \<open>Connection manager\<close>

text \<open>
  The transport (the tmi.js client) is outside the program. It appears here as what it
  does to the program: the events it delivers to the registered handlers, and how the
  promise of each call on it settles.
\<close>

type_synonym userstate = "(string \<times> tag_value) list"

datatype event =
    Connecting
  | Connected string int
  | Disconnected string
  | Chat string userstate string bool string int
  | Join string string bool
  | Part string string bool
  | Reconnect

datatype reply = Resolved | Rejected string

datatype transport_call =
    T_connect
  | T_disconnect
  | T_join string
  | T_part string
  | T_say string string

text \<open>
  \<open>NotConnectedError\<close> is \<open>new Error('Not connected to Twitch IRC')\<close>; \<open>TransportError\<close>
  is the value the transport rejected with, which every method logs and throws again.
\<close>

datatype error = NotConnectedError | TransportError string

record TwitchClientOptions =
  opt_username :: string
  oauthToken :: string
  opt_channels :: "string list option"
  reconnect :: "bool option"

text \<open>
  The three fields of the class, the store its message handler writes to, and what the
  program has asked of its environment: the delays of the reconnect timers it has set
  (\<open>timers\<close>), how many of them have fired, and the calls made on the transport.
\<close>

record TwitchClient =
  channels :: "string list"
  connected :: bool
  reconnectAttempts :: nat
  messageStore :: MessageStore
  timers :: "int list"
  timersFired :: nat
  transportCalls :: "transport_call list"

definition maxReconnectAttempts :: nat where
  "maxReconnectAttempts = 5"

definition reconnectInterval :: int where
  "reconnectInterval = 5000"

text \<open>A \<open>Set\<close> of strings, as the list of its elements in insertion order.\<close>

definition set_add :: "string \<Rightarrow> string list \<Rightarrow> string list" where
  "set_add x xs = (if x \<in> set xs then xs else xs @ [x])"

definition set_delete :: "string \<Rightarrow> string list \<Rightarrow> string list" where
  "set_delete x xs = removeAll x xs"

definition new_Set :: "string list \<Rightarrow> string list" where
  "new_Set xs = foldl (\<lambda>acc x. set_add x acc) [] xs"

text \<open>\<open>channel.replace('#', '')\<close> removes the first \<open>#\<close>.\<close>

definition replace_hash :: "string \<Rightarrow> string" where
  "replace_hash ch = remove1 (CHR ''#'') ch"

text \<open>\<open>a || b\<close> on an optional string.\<close>

definition or_else :: "string option \<Rightarrow> string \<Rightarrow> string" where
  "or_else a b = (if truthy a then the a else b)"

text \<open>The tags \<open>id\<close>, \<open>display-name\<close> and \<open>username\<close> are strings when present.\<close>

definition tag_string :: "userstate \<Rightarrow> string \<Rightarrow> string option" where
  "tag_string us k = (case map_of us k of Some (TagString v) \<Rightarrow> Some v | _ \<Rightarrow> None)"

definition new_TwitchClient ::
  "lower_casing \<Rightarrow> TwitchClientOptions \<Rightarrow> MessageStore \<Rightarrow> TwitchClient" where
  "new_TwitchClient toLowerCase options st =
     \<lparr>channels =
        new_Set (map toLowerCase (case opt_channels options of None \<Rightarrow> [] | Some cs \<Rightarrow> cs)),
      connected = False,
      reconnectAttempts = 0,
      messageStore = st,
      timers = [],
      timersFired = 0,
      transportCalls = []\<rparr>"

text \<open>
  The event handlers of \<open>setupEventHandlers\<close>. \<open>Chat\<close> carries, after the arguments of
  the \<open>message\<close> event, the identifier the handler would generate and the current time.
  The second \<open>disconnected\<close> handler only logs.
\<close>

fun on_event ::
  "lower_casing \<Rightarrow> event \<Rightarrow> TwitchClient \<Rightarrow> TwitchClient" where
  "on_event toLowerCase Connecting s = s"
| "on_event toLowerCase (Connected address port) s = s\<lparr>connected := True, reconnectAttempts := 0\<rparr>"
| "on_event toLowerCase (Disconnected reason) s =
     (let s1 = s\<lparr>connected := False\<rparr>
      in if reconnectAttempts s1 < maxReconnectAttempts
         then s1\<lparr>reconnectAttempts := reconnectAttempts s1 + 1,
                 timers := timers s1 @ [reconnectInterval]\<rparr>
         else s1)"
| "on_event toLowerCase (Chat ch us txt self generated now) s =
     (if self then s
      else s\<lparr>messageStore :=
             addMessage toLowerCase (messageStore s)
               \<lparr>msg_id = or_else (tag_string us ''id'') generated,
                channel = replace_hash ch,
                username =
                  or_else (tag_string us ''display-name'')
                    (or_else (tag_string us ''username'') ''anonymous''),
                message = txt,
                timestamp = now,
                tags = us\<rparr>\<rparr>)"
| "on_event toLowerCase (Join ch user self) s =
     (if self then s\<lparr>channels := set_add (replace_hash ch) (channels s)\<rparr> else s)"
| "on_event toLowerCase (Part ch user self) s =
     (if self then s\<lparr>channels := set_delete (replace_hash ch) (channels s)\<rparr> else s)"
| "on_event toLowerCase Reconnect s = s"

text \<open>
  \<open>await this.client.call(...)\<close>: the call is made, the transport delivers events while it
  is pending, then the promise settles.
\<close>

definition await ::
  "lower_casing \<Rightarrow> TwitchClient \<Rightarrow> transport_call \<Rightarrow> event list \<Rightarrow> TwitchClient" where
  "await toLowerCase s call evs =
     fold (on_event toLowerCase) evs (s\<lparr>transportCalls := transportCalls s @ [call]\<rparr>)"

definition settle ::
  "reply \<Rightarrow> TwitchClient \<Rightarrow> (error + unit) \<times> TwitchClient" where
  "settle r s = (case r of Resolved \<Rightarrow> (Inr (), s) | Rejected e \<Rightarrow> (Inl (TransportError e), s))"

definition connect ::
  "lower_casing \<Rightarrow> TwitchClient \<Rightarrow> event list \<Rightarrow> reply \<Rightarrow> (error + unit) \<times> TwitchClient" where
  "connect toLowerCase s evs r =
     (if connected s then (Inr (), s) else settle r (await toLowerCase s T_connect evs))"

definition disconnect ::
  "lower_casing \<Rightarrow> TwitchClient \<Rightarrow> event list \<Rightarrow> reply \<Rightarrow> (error + unit) \<times> TwitchClient" where
  "disconnect toLowerCase s evs r =
     (if \<not> connected s then (Inr (), s)
      else case r of
             Resolved \<Rightarrow> (Inr (), (await toLowerCase s T_disconnect evs)\<lparr>connected := False\<rparr>)
           | Rejected e \<Rightarrow> (Inl (TransportError e), await toLowerCase s T_disconnect evs))"

definition channelName :: "lower_casing \<Rightarrow> string \<Rightarrow> string" where
  "channelName toLowerCase ch = (if prefix ''#'' (toLowerCase ch) then ch else ''#'' @ ch)"

definition joinChannel ::
  "lower_casing \<Rightarrow> TwitchClient \<Rightarrow> string \<Rightarrow> event list \<Rightarrow> reply \<Rightarrow> (error + unit) \<times> TwitchClient" where
  "joinChannel toLowerCase s ch evs r = settle r (await toLowerCase s (T_join (channelName toLowerCase ch)) evs)"

definition leaveChannel ::
  "lower_casing \<Rightarrow> TwitchClient \<Rightarrow> string \<Rightarrow> event list \<Rightarrow> reply \<Rightarrow> (error + unit) \<times> TwitchClient" where
  "leaveChannel toLowerCase s ch evs r = settle r (await toLowerCase s (T_part (channelName toLowerCase ch)) evs)"

definition sendMessage ::
  "lower_casing \<Rightarrow> TwitchClient \<Rightarrow> string \<Rightarrow> string \<Rightarrow> event list \<Rightarrow> reply \<Rightarrow> (error + unit) \<times> TwitchClient" where
  "sendMessage toLowerCase s ch txt evs r =
     (if \<not> connected s then (Inl NotConnectedError, s)
      else settle r (await toLowerCase s (T_say (channelName toLowerCase ch) txt) evs))"

definition getChannels :: "TwitchClient \<Rightarrow> string list" where
  "getChannels s = channels s"

definition isConnected :: "TwitchClient \<Rightarrow> bool" where
  "isConnected s = connected s"

text \<open>
  A reconnect timer fires: \<open>this.connect().catch(...)\<close>, the failure only logged.
\<close>

definition timer_fires ::
  "lower_casing \<Rightarrow> TwitchClient \<Rightarrow> event list \<Rightarrow> reply \<Rightarrow> TwitchClient" where
  "timer_fires toLowerCase s evs r =
     (if timersFired s < length (timers s)
      then snd (connect toLowerCase (s\<lparr>timersFired := timersFired s + 1\<rparr>) evs r)
      else s)"

text \<open>
  A run of the program after construction: transport events, calls of the methods (each
  with what the transport does during the call), and timers firing.
\<close>

datatype step =
    Event event
  | Call_connect "event list" reply
  | Call_disconnect "event list" reply
  | Call_joinChannel string "event list" reply
  | Call_leaveChannel string "event list" reply
  | Call_sendMessage string string "event list" reply
  | Timer "event list" reply

fun do_step ::
  "lower_casing \<Rightarrow> step \<Rightarrow> TwitchClient \<Rightarrow> TwitchClient" where
  "do_step toLowerCase (Event e) s = on_event toLowerCase e s"
| "do_step toLowerCase (Call_connect evs r) s = snd (connect toLowerCase s evs r)"
| "do_step toLowerCase (Call_disconnect evs r) s = snd (disconnect toLowerCase s evs r)"
| "do_step toLowerCase (Call_joinChannel ch evs r) s = snd (joinChannel toLowerCase s ch evs r)"
| "do_step toLowerCase (Call_leaveChannel ch evs r) s = snd (leaveChannel toLowerCase s ch evs r)"
| "do_step toLowerCase (Call_sendMessage ch txt evs r) s = snd (sendMessage toLowerCase s ch txt evs r)"
| "do_step toLowerCase (Timer evs r) s = timer_fires toLowerCase s evs r"

definition run ::
  "lower_casing \<Rightarrow> step list \<Rightarrow> TwitchClient \<Rightarrow> TwitchClient" where
  "run toLowerCase steps s = fold (do_step toLowerCase) steps s"

text \<open>The events that reach the handlers in a step: a call that returns early reaches the
  transport not at all.\<close>

fun delivered :: "step \<Rightarrow> TwitchClient \<Rightarrow> event list" where
  "delivered (Event e) s = [e]"
| "delivered (Call_connect evs r) s = (if connected s then [] else evs)"
| "delivered (Call_disconnect evs r) s = (if connected s then evs else [])"
| "delivered (Call_joinChannel ch evs r) s = evs"
| "delivered (Call_leaveChannel ch evs r) s = evs"
| "delivered (Call_sendMessage ch txt evs r) s = (if connected s then evs else [])"
| "delivered (Timer evs r) s =
     (if timersFired s < length (timers s) \<and> \<not> connected s then evs else [])"

fun trace ::
  "lower_casing \<Rightarrow> step list \<Rightarrow> TwitchClient \<Rightarrow> event list" where
  "trace toLowerCase [] s = []"
| "trace toLowerCase (st # steps) s = delivered st s @ trace toLowerCase steps (do_step toLowerCase st s)"

fun is_Connected :: "event \<Rightarrow> bool" where
  "is_Connected (Connected address port) = True"
| "is_Connected e = False"

fun is_Disconnected :: "event \<Rightarrow> bool" where
  "is_Disconnected (Disconnected reason) = True"
| "is_Disconnected e = False"

text \<open>The channels whose join, or part, the transport acknowledged to the bot itself.\<close>

fun self_joined :: "event list \<Rightarrow> string list" where
  "self_joined [] = []"
| "self_joined (Join ch user self # evs) =
     (if self then replace_hash ch # self_joined evs else self_joined evs)"
| "self_joined (e # evs) = self_joined evs"

fun self_parted :: "event list \<Rightarrow> string list" where
  "self_parted [] = []"
| "self_parted (Part ch user self # evs) =
     (if self then replace_hash ch # self_parted evs else self_parted evs)"
| "self_parted (e # evs) = self_parted evs"

text \<open>
  An example client, configured with the channel \<open>Foo\<close>: as constructed, and after the
  transport has reported the connection.
\<close>

definition sample_options :: TwitchClientOptions where
  "sample_options =
     \<lparr>opt_username = ''bot'', oauthToken = ''oauth:token'', opt_channels = Some [''Foo''],
      reconnect = None\<rparr>"

definition sample_client :: TwitchClient where
  "sample_client = new_TwitchClient ascii_toLowerCase sample_options default_MessageStore"

definition connected_client :: TwitchClient where
  "connected_client = on_event ascii_toLowerCase (Connected ''irc-ws.chat.twitch.tv'' 443) sample_client"

text \<open>
  To state the retry budget: from a retry counter \<open>a\<close>, the number of reconnections that
  a sequence of events with no \<open>connected\<close> among them schedules.
\<close>

definition retries :: "nat \<Rightarrow> event list \<Rightarrow> nat" where
  "retries a evs = min (maxReconnectAttempts - a) (length (filter is_Disconnected evs))"

text \<open>Two states agree on the retry counter, the timers and the channels.\<close>

definition same_links :: "TwitchClient \<Rightarrow> TwitchClient \<Rightarrow> bool" where
  "same_links s t =
     (reconnectAttempts s = reconnectAttempts t \<and> timers s = timers t \<and> channels s = channels t)"

text \<open>
  Two example runs. In the first the connection drops three times, a reconnect timer
  fires and its attempt is refused, and the connection is reported down three more times.
  In the second the client connects, joins \<open>bar\<close>, sees another user join and a drop, and
  leaves \<open>foo\<close>.
\<close>

definition six_drops :: "step list" where
  "six_drops =
     [Event (Disconnected ''drop''), Event (Disconnected ''drop''), Event (Disconnected ''drop''),
      Timer [Connecting, Disconnected ''refused''] (Rejected ''refused''),
      Event (Disconnected ''drop''), Event (Disconnected ''drop''), Event (Disconnected ''drop'')]"

definition join_and_part :: "step list" where
  "join_and_part =
     [Call_connect [Connecting, Connected ''irc-ws.chat.twitch.tv'' 443, Join ''#foo'' ''bot'' True] Resolved,
      Call_joinChannel ''Bar'' [Join ''#bar'' ''bot'' True] Resolved,
      Event (Join ''#bar'' ''alice'' False),
      Event (Disconnected ''drop''),
      Call_leaveChannel ''foo'' [Part ''#foo'' ''bot'' True] Resolved]"

section \<open>Tool dispatcher: the \<open>filterMessages\<close> tool\<close>

text \<open>
  The handler calls \<open>new Date(string)\<close> of the host, which yields the invalid date for a
  string it cannot parse and never throws: the parameter \<open>parseDate\<close>.
\<close>

text \<open>The arguments of the tool, after the schema: every one optional.\<close>

record FilterArgs =
  arg_channel :: "string option"
  arg_username :: "string option"
  arg_contains :: "string option"
  arg_since :: "string option"
  arg_until :: "string option"
  arg_page :: "number option"
  arg_pageSize :: "number option"

text \<open>
  The envelope of a tool call: its text blocks and the error flag (absent is false). A
  text block is a fixed text, or the listing template with the values it is filled with:
  the channel, the messages, and for a paginated call the page, the number of messages
  shown and the message count of the store.
\<close>

datatype text_block =
    Literal string
  | Filtered_messages "string option" "Message list" "(number \<times> nat \<times> nat) option"

record ToolResult =
  content :: "text_block list"
  isError :: bool

definition tool_filter ::
  "(string \<Rightarrow> Date) \<Rightarrow> FilterArgs \<Rightarrow> MessageFilter" where
  "tool_filter parseDate a =
     \<lparr>filter_channel = arg_channel a,
      filter_username = arg_username a,
      filter_contains = arg_contains a,
      filter_since = (if truthy (arg_since a) then Some (parseDate (the (arg_since a))) else None),
      filter_until = (if truthy (arg_until a) then Some (parseDate (the (arg_until a))) else None),
      filter_page = arg_page a,
      filter_pageSize = arg_pageSize a\<rparr>"

text \<open>
  The handler of the tool. Nothing inside its \<open>try\<close> throws on these values, so the
  \<open>catch\<close>, which would answer with \<open>isError\<close>, is never entered.
\<close>

definition filterMessages_tool ::
  "lower_casing \<Rightarrow> (string \<Rightarrow> Date) \<Rightarrow> MessageStore \<Rightarrow> FilterArgs \<Rightarrow> ToolResult \<times> MessageStore" where
  "filterMessages_tool toLowerCase parseDate s a =
     (let found = filterMessages toLowerCase s (tool_filter parseDate a);
          msgs = fst found;
          s' = snd found
      in if length msgs = 0
         then (\<lparr>content = [Literal ''No messages found matching the filter criteria''],
                isError = False\<rparr>, s')
         else
           let paginationInfo =
                 (case arg_page a of
                    None \<Rightarrow> None
                  | Some page \<Rightarrow>
                      (case arg_pageSize a of
                         None \<Rightarrow> None
                       | Some pageSize \<Rightarrow>
                           Some (plus_number page (Num 1), length msgs,
                                 getMessageCount toLowerCase s' (arg_channel a))))
           in (\<lparr>content =
                  [Filtered_messages
                     (if truthy (arg_channel a) then arg_channel a else None) msgs paginationInfo],
                isError = False\<rparr>, s'))"

text \<open>
  A date parser that knows two instants and nothing else: enough to run the handler on
  the string \<open>not-a-date\<close>, which no host parses.
\<close>

definition sample_parseDate :: "string \<Rightarrow> Date" where
  "sample_parseDate str =
     (if str = ''1970-01-01T00:00:00.000Z'' then Date 0
      else if str = ''1970-01-01T00:00:00.003Z'' then Date 3
      else InvalidDate)"

definition no_args :: FilterArgs where
  "no_args =
     \<lparr>arg_channel = None, arg_username = None, arg_contains = None, arg_since = None,
      arg_until = None, arg_page = None, arg_pageSize = None\<rparr>"

section \<open>The message store keeps the most recent messages\<close>

lemma splice0_excess:
  "n < length xs \<Longrightarrow> splice0 (int (length xs) - int n) xs = drop (length xs - n) xs"
  by (simp add: splice0_def nat_diff_distrib')

lemma pruned_eq:
  "(if int (length xs) > int n then splice0 (int (length xs) - int n) xs else xs)
     = most_recent n xs"
  by (simp add: splice0_excess most_recent_def)

lemma history_addMessage:
  "history (addMessage toLowerCase s m) c =
     (if c = toLowerCase (channel m)
      then most_recent (maxMessagesPerChannel s) (history s c @ [m])
      else history s c)"
  unfolding addMessage_def Let_def pruned_eq
  by (auto simp: history_def update_conv' split: option.splits)

lemma bound_addMessage [simp]:
  "maxMessagesPerChannel (addMessage toLowerCase s m) = maxMessagesPerChannel s"
  by (simp add: addMessage_def Let_def split: option.splits)

lemma bound_foldl_addMessage [simp]:
  "maxMessagesPerChannel (foldl (addMessage toLowerCase) s ms) = maxMessagesPerChannel s"
  by (induction ms arbitrary: s) simp_all

lemma most_recent_snoc:
  "most_recent n (most_recent n xs @ [x]) = most_recent n (xs @ [x])"
  by (cases "n \<le> length xs") (auto simp: most_recent_def Suc_diff_le)

text \<open>
  From any store: once a channel has received a message, its history is the tail of the
  old history followed by the arrivals, cut to the bound.
\<close>

lemma history_foldl_addMessage:
  "history (foldl (addMessage toLowerCase) s ms) c =
     (let sent = filter (\<lambda>m. toLowerCase (channel m) = c) ms
      in if sent = [] then history s c
         else most_recent (maxMessagesPerChannel s) (history s c @ sent))"
proof (induction ms rule: rev_induct)
  case Nil
  then show ?case by simp
next
  case (snoc m ms)
  show ?case
  proof (cases "toLowerCase (channel m) = c")
    case True
    then show ?thesis
      using snoc by (auto simp: history_addMessage Let_def most_recent_snoc
          simp flip: append_assoc)
  next
    case False
    then show ?thesis using snoc by (simp add: history_addMessage Let_def)
  qed
qed

lemma history_new [simp]: "history (new_MessageStore b) c = []"
  by (simp add: history_def new_MessageStore_def)

lemma bound_new [simp]: "maxMessagesPerChannel (new_MessageStore b) = b"
  by (simp add: new_MessageStore_def)

text \<open>
  Claim C1. Start from a new store with bound \<open>bound\<close> and add any sequence of messages
  \<open>msgs\<close>. For every channel \<open>c\<close>, with \<open>sent\<close> the messages of \<open>msgs\<close> whose lower-cased
  channel is \<open>c\<close>, in arrival order: the history of \<open>c\<close> has at most \<open>bound\<close> messages, and
  it is exactly the last \<open>min (length sent) bound\<close> messages of \<open>sent\<close>, in arrival order.
  As \<open>msgs\<close> is arbitrary, this holds after each call. The single insertion, on any store
  \<open>s0\<close>: the new history is the old one followed by the message, with the oldest entries
  dropped down to the bound. The bound of the default store is 1000.
\<close>

theorem bound_invariant:
  "(let s = foldl (addMessage toLowerCase) (new_MessageStore bound) msgs;
        sent = filter (\<lambda>m. toLowerCase (channel m) = c) msgs
    in length (history s c) \<le> bound
       \<and> maxMessagesPerChannel s = bound
       \<and> history s c = most_recent (min (length sent) bound) sent)
   \<and> history (addMessage toLowerCase s0 m) (toLowerCase (channel m))
       = most_recent (maxMessagesPerChannel s0) (history s0 (toLowerCase (channel m)) @ [m])
   \<and> maxMessagesPerChannel default_MessageStore = 1000"
proof -
  let ?s = "foldl (addMessage toLowerCase) (new_MessageStore bound) msgs"
  let ?sent = "filter (\<lambda>m. toLowerCase (channel m) = c) msgs"
  have kept: "history ?s c = most_recent bound ?sent"
    by (simp add: history_foldl_addMessage Let_def most_recent_def)
  have cut: "most_recent bound ?sent = most_recent (min (length ?sent) bound) ?sent"
    by (simp add: most_recent_def min_def)
  have "length (most_recent bound ?sent) \<le> bound"
    by (simp add: most_recent_def)
  with kept cut have whole: "length (history ?s c) \<le> bound
      \<and> maxMessagesPerChannel ?s = bound
      \<and> history ?s c = most_recent (min (length ?sent) bound) ?sent"
    by simp
  have one: "history (addMessage toLowerCase s0 m) (toLowerCase (channel m))
       = most_recent (maxMessagesPerChannel s0) (history s0 (toLowerCase (channel m)) @ [m])"
    by (simp add: history_addMessage)
  have "maxMessagesPerChannel default_MessageStore = 1000"
    by (simp add: default_MessageStore_def)
  with whole one show ?thesis unfolding Let_def by blast
qed

section \<open>Recent messages\<close>

text \<open>The two example stores, evaluated.\<close>

lemma messages_sample_chat:
  "messages sample_chat =
     [(''foo'', [chat_message ''Foo'' ''Ann'' ''Hello world'' 10,
                 chat_message ''foo'' ''bob'' ''hello Ann'' 20,
                 chat_message ''foo'' ''joanne'' ''HELLO'' 5]),
      (''bar'', [chat_message ''bar'' ''ANNA'' ''bye'' 15])]"
  by (simp add: sample_chat_def default_MessageStore_def new_MessageStore_def addMessage_def
      splice0_def Let_def chat_message_def ascii_toLowerCase_def ascii_toLowerCase_char_def)

lemma messages_sample_store:
  "messages sample_store =
     [(''foo'', [sample_message 1, sample_message 2, sample_message 3, sample_message 4,
                 sample_message 5])]"
  by (simp add: sample_store_def default_MessageStore_def new_MessageStore_def addMessage_def
      splice0_def Let_def sample_message_def ascii_toLowerCase_def ascii_toLowerCase_char_def)

lemma sample_store_history:
  "history sample_store ''foo'' =
     [sample_message 1, sample_message 2, sample_message 3, sample_message 4, sample_message 5]"
  by (simp add: sample_store_def default_MessageStore_def history_addMessage most_recent_def
      sample_message_def ascii_toLowerCase_def ascii_toLowerCase_char_def)

text \<open>
  With a bound of 3 and five messages sent to \<open>foo\<close>, the store holds the last three: the
  first two have been evicted.
\<close>

theorem bound_invariant_witness:
  "history (foldl (addMessage ascii_toLowerCase) (new_MessageStore 3)
      [sample_message 1, sample_message 2, sample_message 3, sample_message 4, sample_message 5])
      ''foo''
     = [sample_message 3, sample_message 4, sample_message 5]"
  using bound_invariant[where toLowerCase = ascii_toLowerCase and bound = 3 and c = "''foo''"
      and msgs = "[sample_message 1, sample_message 2, sample_message 3, sample_message 4,
                   sample_message 5]"]
  by (simp add: Let_def most_recent_def sample_message_def ascii_toLowerCase_def ascii_toLowerCase_char_def)

lemma getRecentMessages_positive:
  "0 < limit \<Longrightarrow>
     getRecentMessages toLowerCase s ch limit =
       sort_key timestamp (most_recent (nat limit) (history s (toLowerCase ch)))"
  by (auto simp: getRecentMessages_def Let_def slice_from_def slice_index_def most_recent_def
      min_def intro!: arg_cong[where f="sort_key timestamp"] arg_cong2[where f=drop])

lemma getRecentMessages_nonpositive:
  "limit \<le> 0 \<Longrightarrow>
     getRecentMessages toLowerCase s ch limit =
       sort_key timestamp (drop (nat (- limit)) (history s (toLowerCase ch)))"
  by (auto simp: getRecentMessages_def Let_def slice_from_def slice_index_def min_def)

lemma getRecentMessages_length:
  "0 < limit \<Longrightarrow> int (length (getRecentMessages toLowerCase s ch limit)) \<le> limit"
  by (simp add: getRecentMessages_positive most_recent_def)

lemma getRecentMessages_unknown:
  "map_of (messages s) (toLowerCase ch) = None \<Longrightarrow> getRecentMessages toLowerCase s ch limit = []"
  by (simp add: getRecentMessages_def history_def slice_from_def)

lemma sorted_map_drop: "sorted (map f xs) \<Longrightarrow> sorted (map f (drop n xs))"
  by (simp flip: drop_map)

lemma sorted_map_take: "sorted (map f xs) \<Longrightarrow> sorted (map f (take n xs))"
  by (simp flip: take_map)

lemma getRecentMessages_arrival_order:
  "0 < limit \<Longrightarrow> sorted (map timestamp (history s (toLowerCase ch))) \<Longrightarrow>
     getRecentMessages toLowerCase s ch limit = most_recent (nat limit) (history s (toLowerCase ch))"
  by (simp add: getRecentMessages_positive most_recent_def sort_key_id_if_sorted sorted_map_drop)

lemma getRecentMessages_example:
  "getRecentMessages ascii_toLowerCase sample_store ''foo'' 3 = [sample_message 3, sample_message 4, sample_message 5]"
  by (simp add: getRecentMessages_positive sample_store_history most_recent_def
      sample_message_def ascii_toLowerCase_def ascii_toLowerCase_char_def)

text \<open>
  Claim C2, at the limit 0: the channel \<open>foo\<close> holds five messages, and
  \<open>getRecentMessages\<close> with limit 0 returns all five, not at most 0 of them. The source
  computes \<open>slice(-Math.min(limit, length))\<close>, which for limit 0 is \<open>slice(0)\<close>, the whole
  array. For a limit of at least 1 the claim holds (\<open>getRecentMessages_positive\<close>,
  \<open>getRecentMessages_length\<close>, \<open>getRecentMessages_unknown\<close>, \<open>getRecentMessages_example\<close>).
\<close>

theorem getRecentMessages_limit_zero:
  "getRecentMessages ascii_toLowerCase sample_store ''foo'' 0 =
     [sample_message 1, sample_message 2, sample_message 3, sample_message 4, sample_message 5]"
  by (simp add: getRecentMessages_nonpositive sample_store_history
      sample_message_def ascii_toLowerCase_def ascii_toLowerCase_char_def)

section \<open>Filtering\<close>

lemma filter_steps:
  "by_until f (by_since f (by_contains toLowerCase f (by_username toLowerCase f ms))) =
     filter (\<lambda>m. matches_username toLowerCase f m \<and> matches_contains toLowerCase f m \<and> matches_since f m
                  \<and> matches_until f m) ms"
  by (auto simp: by_until_def by_since_def by_contains_def by_username_def
      matches_username_def matches_contains_def matches_since_def matches_until_def
      split: option.splits intro: filter_cong)

lemma sorted_slice: "sorted (map f xs) \<Longrightarrow> sorted (map f (slice a b xs))"
  by (simp add: slice_def Let_def sorted_map_drop sorted_map_take)

lemma sorted_paginate: "sorted (map timestamp ms) \<Longrightarrow> sorted (map timestamp (paginate f ms))"
  by (simp add: paginate_def Let_def sorted_slice split: option.splits)

lemma fst_filterMessages:
  "fst (filterMessages toLowerCase s f) =
     paginate f (sort_key timestamp
       (filter (\<lambda>m. matches_username toLowerCase f m \<and> matches_contains toLowerCase f m \<and> matches_since f m
                    \<and> matches_until f m) (getAllMessages toLowerCase s (filter_channel f))))"
  by (simp add: filterMessages_def Let_def filter_steps)

lemma paginate_no_page [simp]: "paginate (f\<lparr>filter_page := None\<rparr>) ms = ms"
  by (simp add: paginate_def)

lemma matches_no_page [simp]:
  "matches_username toLowerCase (f\<lparr>filter_page := p\<rparr>) = matches_username toLowerCase f"
  "matches_contains toLowerCase (f\<lparr>filter_page := p\<rparr>) = matches_contains toLowerCase f"
  "matches_since (f\<lparr>filter_page := p\<rparr>) = matches_since f"
  "matches_until (f\<lparr>filter_page := p\<rparr>) = matches_until f"
  "matches_username toLowerCase (f\<lparr>filter_pageSize := q\<rparr>) = matches_username toLowerCase f"
  "matches_contains toLowerCase (f\<lparr>filter_pageSize := q\<rparr>) = matches_contains toLowerCase f"
  "matches_since (f\<lparr>filter_pageSize := q\<rparr>) = matches_since f"
  "matches_until (f\<lparr>filter_pageSize := q\<rparr>) = matches_until f"
  by (simp_all add: fun_eq_iff matches_username_def matches_contains_def matches_since_def
      matches_until_def)

text \<open>
  Claim C4. For every store and every filter, \<open>filterMessages\<close> returns the messages of
  \<open>getAllMessages (filter.channel)\<close> that match every criterion (user name contains the
  filter's, text contains the filter's, both after \<open>toLowerCase\<close> of the host on either
  side, whatever that function is; time stamp not
  before \<open>since\<close>, not after \<open>until\<close>; an absent criterion matches), sorted by time stamp
  by a stable sort, and then the requested page of them, if any. The result is sorted
  by time stamp. Without a page, the result holds exactly the messages in the
  intersection of the matches of the four criteria.
\<close>

theorem filter_composition:
  "fst (filterMessages toLowerCase s f) =
     paginate f (sort_key timestamp
       (filter (\<lambda>m. matches_username toLowerCase f m \<and> matches_contains toLowerCase f m \<and> matches_since f m
                    \<and> matches_until f m) (getAllMessages toLowerCase s (filter_channel f))))
   \<and> sorted (map timestamp (fst (filterMessages toLowerCase s f)))
   \<and> set (fst (filterMessages toLowerCase s (f\<lparr>filter_page := None\<rparr>))) =
       set (getAllMessages toLowerCase s (filter_channel f)) \<inter> {m. matches_username toLowerCase f m}
         \<inter> {m. matches_contains toLowerCase f m} \<inter> {m. matches_since f m} \<inter> {m. matches_until f m}"
proof (intro conjI)
  show "fst (filterMessages toLowerCase s f) =
     paginate f (sort_key timestamp
       (filter (\<lambda>m. matches_username toLowerCase f m \<and> matches_contains toLowerCase f m \<and> matches_since f m
                    \<and> matches_until f m) (getAllMessages toLowerCase s (filter_channel f))))"
    by (rule fst_filterMessages)
  show "sorted (map timestamp (fst (filterMessages toLowerCase s f)))"
    unfolding fst_filterMessages by (rule sorted_paginate) simp
  show "set (fst (filterMessages toLowerCase s (f\<lparr>filter_page := None\<rparr>))) =
       set (getAllMessages toLowerCase s (filter_channel f)) \<inter> {m. matches_username toLowerCase f m}
         \<inter> {m. matches_contains toLowerCase f m} \<inter> {m. matches_since f m} \<inter> {m. matches_until f m}"
    unfolding fst_filterMessages by auto
qed

lemma messages_sample_criteria:
  "messages sample_criteria =
     [(''foo'', [chat_message ''foo'' ''Ann'' ''Hello world'' 10,
                 chat_message ''foo'' ''bob'' ''hello Ann'' 12,
                 chat_message ''foo'' ''joanne'' ''HELLO'' 3]),
      (''bar'', [chat_message ''bar'' ''ANNA'' ''bye'' 11,
                 chat_message ''bar'' ''Annie'' ''hello'' 20,
                 chat_message ''bar'' ''ann'' ''oh hello'' 7])]"
  by (simp add: sample_criteria_def default_MessageStore_def new_MessageStore_def addMessage_def
      splice0_def Let_def chat_message_def ascii_toLowerCase_def ascii_toLowerCase_char_def)

lemma all_sample_criteria:
  "getAllMessages ascii_toLowerCase sample_criteria None =
     [chat_message ''foo'' ''joanne'' ''HELLO'' 3,
      chat_message ''bar'' ''ann'' ''oh hello'' 7,
      chat_message ''foo'' ''Ann'' ''Hello world'' 10,
      chat_message ''bar'' ''ANNA'' ''bye'' 11,
      chat_message ''foo'' ''bob'' ''hello Ann'' 12,
      chat_message ''bar'' ''Annie'' ''hello'' 20]"
  by (simp add: getAllMessages_def messages_sample_criteria chat_message_def)

text \<open>
  On the third example the filter returns the two messages that match every criterion,
  sorted by time stamp. Each criterion counts: with the user name left out the message of
  \<open>bob\<close> comes back too, with the text left out the message \<open>bye\<close>, with \<open>since\<close> left out
  the message stamped 3, and with \<open>until\<close> left out the message stamped 20.
\<close>

theorem filter_composition_witness:
  "fst (filterMessages ascii_toLowerCase sample_criteria criteria_filter)
     = [chat_message ''bar'' ''ann'' ''oh hello'' 7, chat_message ''foo'' ''Ann'' ''Hello world'' 10]
   \<and> fst (filterMessages ascii_toLowerCase sample_criteria
            (criteria_filter\<lparr>filter_username := None\<rparr>))
     = [chat_message ''bar'' ''ann'' ''oh hello'' 7, chat_message ''foo'' ''Ann'' ''Hello world'' 10,
        chat_message ''foo'' ''bob'' ''hello Ann'' 12]
   \<and> fst (filterMessages ascii_toLowerCase sample_criteria
            (criteria_filter\<lparr>filter_contains := None\<rparr>))
     = [chat_message ''bar'' ''ann'' ''oh hello'' 7, chat_message ''foo'' ''Ann'' ''Hello world'' 10,
        chat_message ''bar'' ''ANNA'' ''bye'' 11]
   \<and> fst (filterMessages ascii_toLowerCase sample_criteria
            (criteria_filter\<lparr>filter_since := None\<rparr>))
     = [chat_message ''foo'' ''joanne'' ''HELLO'' 3, chat_message ''bar'' ''ann'' ''oh hello'' 7,
        chat_message ''foo'' ''Ann'' ''Hello world'' 10]
   \<and> fst (filterMessages ascii_toLowerCase sample_criteria
            (criteria_filter\<lparr>filter_until := None\<rparr>))
     = [chat_message ''bar'' ''ann'' ''oh hello'' 7, chat_message ''foo'' ''Ann'' ''Hello world'' 10,
        chat_message ''bar'' ''Annie'' ''hello'' 20]"
  using filter_composition[where toLowerCase = ascii_toLowerCase and s = sample_criteria
      and f = criteria_filter]
    filter_composition[where toLowerCase = ascii_toLowerCase and s = sample_criteria
      and f = "criteria_filter\<lparr>filter_username := None\<rparr>"]
    filter_composition[where toLowerCase = ascii_toLowerCase and s = sample_criteria
      and f = "criteria_filter\<lparr>filter_contains := None\<rparr>"]
    filter_composition[where toLowerCase = ascii_toLowerCase and s = sample_criteria
      and f = "criteria_filter\<lparr>filter_since := None\<rparr>"]
    filter_composition[where toLowerCase = ascii_toLowerCase and s = sample_criteria
      and f = "criteria_filter\<lparr>filter_until := None\<rparr>"]
  by (simp add: criteria_filter_def all_sample_criteria paginate_def
      matches_username_def matches_contains_def matches_since_def matches_until_def
      ascii_toLowerCase_def ascii_toLowerCase_char_def includes_str_def sublist_code(3)
      chat_message_def)

section \<open>Pagination\<close>

lemma slice_take_drop: "slice (int a) (int a + int b) xs = take b (drop a xs)"
proof -
  have "nat (int a + int b) = a + b" by simp
  then show ?thesis
    by (auto simp: slice_def slice_index_def Let_def min_def)
qed

text \<open>On integers the arithmetic of numbers is that of the integers.\<close>

lemma ToInteger_of_int: "ToIntegerOrInfinity (Num (of_int k)) = k"
proof (cases "k < 0")
  case True
  have "floor (- (of_int k :: rat)) = - k"
    by (simp flip: of_int_minus)
  with True show ?thesis by simp
next
  case False
  then show ?thesis by simp
qed

lemma paginate_int:
  assumes "filter_page g = Some (Num (of_int p))"
    and "filter_pageSize g = Some (Num (of_int sz))"
  shows "paginate g ms =
     slice ((if p < 0 then 0 else p) * (if sz \<le> 0 then 10 else sz))
       ((if p < 0 then 0 else p) * (if sz \<le> 0 then 10 else sz) + (if sz \<le> 0 then 10 else sz))
       ms"
proof -
  have page: "(if less_zero (Num (of_int p)) then Num 0 else Num (of_int p))
      = Num (of_int (if p < 0 then 0 else p))"
    by simp
  have size: "(if less_eq_zero (Num (of_int sz)) then Num 10 else Num (of_int sz))
      = Num (of_int (if sz \<le> 0 then 10 else sz))"
    by simp
  have times: "\<And>a b. times_number (Num (of_int a)) (Num (of_int b)) = Num (of_int (a * b))"
    by simp
  have plus: "\<And>a b. plus_number (Num (of_int a)) (Num (of_int b)) = Num (of_int (a + b))"
    by simp
  show ?thesis
    by (simp only: paginate_def Let_def assms option.case page size times plus ToInteger_of_int)
qed

lemma paginate_page:
  "paginate (f\<lparr>filter_page := Some (Num (of_int p)), filter_pageSize := Some (Num (of_int sz))\<rparr>) ms =
     take (page_size sz) (drop (nat (max p 0) * page_size sz) ms)"
proof -
  have P: "(if p < 0 then 0 else p) = int (nat (max p 0))" by simp
  have S: "(if sz \<le> 0 then 10 else sz) = int (page_size sz)" by (simp add: page_size_def)
  have "paginate (f\<lparr>filter_page := Some (Num (of_int p)),
                     filter_pageSize := Some (Num (of_int sz))\<rparr>) ms
        = slice ((if p < 0 then 0 else p) * (if sz \<le> 0 then 10 else sz))
            ((if p < 0 then 0 else p) * (if sz \<le> 0 then 10 else sz)
              + (if sz \<le> 0 then 10 else sz)) ms"
    by (rule paginate_int) simp_all
  also have "\<dots> = slice (int (nat (max p 0) * page_size sz))
                      (int (nat (max p 0) * page_size sz) + int (page_size sz)) ms"
    by (simp only: P S of_nat_mult)
  also have "\<dots> = take (page_size sz) (drop (nat (max p 0) * page_size sz) ms)"
    by (rule slice_take_drop)
  finally show ?thesis .
qed

lemma concat_pages:
  "concat (map (\<lambda>p. take k (drop (p * k) xs)) [0..<n]) = take (n * k) xs"
proof (induction n)
  case 0
  then show ?case by simp
next
  case (Suc n)
  have "take (n * k) xs @ take k (drop (n * k) xs) = take (n * k + k) xs"
    by (simp add: take_add)
  then show ?case using Suc by (simp add: add.commute)
qed

lemma page_count_covers: "0 < k \<Longrightarrow> len \<le> page_count len k * k"
proof -
  assume k: "0 < k"
  have "len + k - 1 < ((len + k - 1) div k + 1) * k"
    using k by (metis div_less_iff_less_mult k lessI Suc_eq_plus1)
  then show ?thesis using k by (simp add: page_count_def)
qed

lemma page_empty_iff: "0 < k \<Longrightarrow> (len \<le> p * k) = (page_count len k \<le> p)"
proof -
  assume k: "0 < k"
  have "(page_count len k < p + 1) = (len + k - 1 < (p + 1) * k)"
    unfolding page_count_def using k by (rule div_less_iff_less_mult)
  then show ?thesis using k by auto
qed

lemma page_size_pos [simp]: "0 < page_size sz"
  by (simp add: page_size_def)

lemma page_size_neq0 [simp]: "page_size sz \<noteq> 0"
  by (simp add: page_size_def)

lemma getAll_page [simp]:
  "filter_channel (f\<lparr>filter_page := p, filter_pageSize := q\<rparr>) = filter_channel f"
  by simp

lemma fst_filterMessages_page:
  "fst (filterMessages toLowerCase s
         (f\<lparr>filter_page := Some (Num (of_int p)), filter_pageSize := Some (Num (of_int sz))\<rparr>)) =
     take (page_size sz) (drop (nat (max p 0) * page_size sz)
       (fst (filterMessages toLowerCase s (f\<lparr>filter_page := None\<rparr>))))"
  unfolding fst_filterMessages paginate_page by simp

lemma history_update_same:
  "history (s\<lparr>messages := AList.update k v (messages s)\<rparr>) k = v"
  by (simp add: history_def update_conv')

lemma snd_filterMessages:
  "snd (filterMessages toLowerCase s g) =
     (if sorts_in_place toLowerCase s g
      then s\<lparr>messages := AList.update (toLowerCase (the (filter_channel g)))
               (sort_key timestamp (history s (toLowerCase (the (filter_channel g))))) (messages s)\<rparr>
      else s)"
  by (auto simp: filterMessages_def Let_def sorts_in_place_def by_until_def by_since_def
      by_contains_def by_username_def getAllMessages_def)

lemma sorts_in_place_criteria:
  "sorts_in_place toLowerCase s g \<Longrightarrow>
     matches_username toLowerCase g m \<and> matches_contains toLowerCase g m \<and> matches_since g m \<and> matches_until g m"
  by (simp add: sorts_in_place_def matches_username_def matches_contains_def matches_since_def
      matches_until_def)

lemma filterMessages_again:
  assumes "filter_channel g = filter_channel f"
    and "matches_username toLowerCase g = matches_username toLowerCase f"
    and "matches_contains toLowerCase g = matches_contains toLowerCase f"
    and "matches_since g = matches_since f" and "matches_until g = matches_until f"
  shows "fst (filterMessages toLowerCase (snd (filterMessages toLowerCase s g)) f) = fst (filterMessages toLowerCase s f)"
proof (cases "sorts_in_place toLowerCase s g")
  case False
  then show ?thesis by (simp add: snd_filterMessages)
next
  case True
  let ?k = "toLowerCase (the (filter_channel g))"
  let ?s' = "s\<lparr>messages := AList.update ?k (sort_key timestamp (history s ?k)) (messages s)\<rparr>"
  have all: "\<And>m. matches_username toLowerCase f m \<and> matches_contains toLowerCase f m \<and> matches_since f m
       \<and> matches_until f m"
    using sorts_in_place_criteria[OF True] assms by simp
  have ch: "truthy (filter_channel f)" using True assms by (simp add: sorts_in_place_def)
  have "getAllMessages toLowerCase ?s' (filter_channel f) = sort_key timestamp (history s ?k)"
    using ch assms(1) by (simp add: getAllMessages_def history_update_same)
  moreover have "getAllMessages toLowerCase s (filter_channel f) = history s ?k"
    using ch assms(1) by (simp add: getAllMessages_def)
  ultimately show ?thesis
    using True all by (simp add: snd_filterMessages fst_filterMessages sort_key_id_if_sorted)
qed

text \<open>
  Claim C3, as amended: for a page and a page size that are integers. Fix the store
  \<open>s\<close>, the filter \<open>f\<close> and the integer page size \<open>sz\<close>; let \<open>full\<close> be the result without
  pagination and \<open>pg p\<close> the result for the integer page \<open>p\<close>. Every page is the slice of
  \<open>full\<close> from \<open>p * size\<close> of length \<open>size\<close>, where a negative \<open>p\<close> counts as 0 and \<open>size\<close> is
  \<open>sz\<close>, or 10 when \<open>sz\<close> is not positive. Page \<open>p\<close> is empty exactly from page
  \<open>n = page_count (length full) size\<close> on, so \<open>n\<close> is the first empty page, and the pages
  before it, concatenated, are \<open>full\<close>. The last part: a call reorders the store at most by
  sorting a channel in place, and a page asked of the store left by an earlier call
  is the page of \<open>s\<close>.
\<close>

theorem pagination_consistency:
  "(let full = fst (filterMessages toLowerCase s (f\<lparr>filter_page := None\<rparr>));
        pg = (\<lambda>p. fst (filterMessages toLowerCase s
                (f\<lparr>filter_page := Some (Num (of_int p)),
                   filter_pageSize := Some (Num (of_int sz))\<rparr>)));
        n = page_count (length full) (page_size sz)
    in (\<forall>p. pg p = take (page_size sz) (drop (nat (max p 0) * page_size sz) full))
       \<and> (\<forall>p. (pg (int p) = []) = (n \<le> p))
       \<and> concat (map (\<lambda>p. pg (int p)) [0..<n]) = full
       \<and> (\<forall>p q r. fst (filterMessages toLowerCase
                         (snd (filterMessages toLowerCase s
                                (f\<lparr>filter_page := q, filter_pageSize := r\<rparr>)))
                         (f\<lparr>filter_page := Some (Num (of_int p)),
                            filter_pageSize := Some (Num (of_int sz))\<rparr>)) = pg p))"
proof -
  let ?full = "fst (filterMessages toLowerCase s (f\<lparr>filter_page := None\<rparr>))"
  let ?S = "page_size sz"
  let ?n = "page_count (length ?full) ?S"
  have pg: "\<And>p. fst (filterMessages toLowerCase s
                (f\<lparr>filter_page := Some (Num (of_int p)),
                   filter_pageSize := Some (Num (of_int sz))\<rparr>))
      = take ?S (drop (nat (max p 0) * ?S) ?full)"
    by (rule fst_filterMessages_page)
  have empty: "\<And>p. (take ?S (drop (p * ?S) ?full) = []) = (?n \<le> p)"
    using page_empty_iff[of ?S "length ?full"] by simp
  have "concat (map (\<lambda>p. take ?S (drop (p * ?S) ?full)) [0..<?n]) = take (?n * ?S) ?full"
    by (rule concat_pages)
  then have cat: "concat (map (\<lambda>p. take ?S (drop (p * ?S) ?full)) [0..<?n]) = ?full"
    using page_count_covers[of ?S "length ?full"] by simp
  have again: "\<And>p q r. fst (filterMessages toLowerCase
                         (snd (filterMessages toLowerCase s
                                (f\<lparr>filter_page := q, filter_pageSize := r\<rparr>)))
                         (f\<lparr>filter_page := Some (Num (of_int p)),
                            filter_pageSize := Some (Num (of_int sz))\<rparr>))
       = fst (filterMessages toLowerCase s
                (f\<lparr>filter_page := Some (Num (of_int p)),
                   filter_pageSize := Some (Num (of_int sz))\<rparr>))"
    by (rule filterMessages_again) simp_all
  show ?thesis
    unfolding Let_def pg again using empty cat by simp
qed

text \<open>
  The example of five matching messages, page 1 of size 2: the third and the fourth.
\<close>

lemma sample_store_unpaginated:
  "fst (filterMessages ascii_toLowerCase sample_store
         (no_filter\<lparr>filter_username := Some ''ann'', filter_page := None\<rparr>))
     = [sample_message 1, sample_message 2, sample_message 3, sample_message 4, sample_message 5]"
  by (simp add: fst_filterMessages no_filter_def getAllMessages_def messages_sample_store
      paginate_def matches_username_def matches_contains_def matches_since_def matches_until_def
      ascii_toLowerCase_def ascii_toLowerCase_char_def includes_str_def sublist_code(3)
      sample_message_def)

theorem pagination_consistency_witness:
  "fst (filterMessages ascii_toLowerCase sample_store
         (no_filter\<lparr>filter_username := Some ''ann'', filter_page := Some (Num (of_int 1)),
                    filter_pageSize := Some (Num (of_int 2))\<rparr>))
     = [sample_message 3, sample_message 4]"
proof -
  let ?f = "no_filter\<lparr>filter_username := Some ''ann''\<rparr>"
  have "\<forall>p. fst (filterMessages ascii_toLowerCase sample_store
                (?f\<lparr>filter_page := Some (Num (of_int p)),
                    filter_pageSize := Some (Num (of_int 2))\<rparr>))
          = take (page_size 2) (drop (nat (max p 0) * page_size 2)
              (fst (filterMessages ascii_toLowerCase sample_store (?f\<lparr>filter_page := None\<rparr>))))"
    using pagination_consistency[where toLowerCase = ascii_toLowerCase and s = sample_store
        and f = ?f and sz = 2]
    unfolding Let_def by blast
  then have "fst (filterMessages ascii_toLowerCase sample_store
                (?f\<lparr>filter_page := Some (Num (of_int 1)),
                    filter_pageSize := Some (Num (of_int 2))\<rparr>))
          = take (page_size 2) (drop (nat (max 1 0) * page_size 2)
              (fst (filterMessages ascii_toLowerCase sample_store (?f\<lparr>filter_page := None\<rparr>))))"
    by (rule spec)
  then show ?thesis
    by (simp add: sample_store_unpaginated page_size_def)
qed

text \<open>
  The claim as stated, for any page size, fails where the page size is no integer. The
  five messages of the first example all match the user name \<open>ann\<close>. With the page size
  one half, which the schema of the tool lets through, page 0 is \<open>slice(0, 0.5)\<close>, that
  is \<open>slice(0, 0)\<close>: the first page is empty and the pages up to it give nothing. The
  same with the page size \<open>NaN\<close>, which the command line passes on for text that is no
  number: \<open>NaN <= 0\<close> is false, and \<open>slice(NaN, NaN)\<close> is \<open>slice(0, 0)\<close>.
\<close>

theorem fractional_pageSize_counterexample:
  "fst (filterMessages ascii_toLowerCase sample_store
         (no_filter\<lparr>filter_username := Some ''ann'', filter_page := None\<rparr>))
     = [sample_message 1, sample_message 2, sample_message 3, sample_message 4, sample_message 5]
   \<and> fst (filterMessages ascii_toLowerCase sample_store
         (no_filter\<lparr>filter_username := Some ''ann'', filter_page := Some (Num 0),
                    filter_pageSize := Some (Num (1 / 2))\<rparr>)) = []
   \<and> fst (filterMessages ascii_toLowerCase sample_store
         (no_filter\<lparr>filter_username := Some ''ann'', filter_page := Some (Num 0),
                    filter_pageSize := Some NaN\<rparr>)) = []"
  by (simp add: fst_filterMessages no_filter_def getAllMessages_def messages_sample_store
      paginate_def slice_def slice_index_def Let_def
      matches_username_def matches_contains_def matches_since_def matches_until_def
      ascii_toLowerCase_def ascii_toLowerCase_char_def includes_str_def sublist_code(3)
      sample_message_def)

section \<open>What adding and clearing leave alone\<close>

lemma messages_addMessage_other:
  "c \<noteq> toLowerCase (channel m) \<Longrightarrow>
     map_of (messages (addMessage toLowerCase s m)) c = map_of (messages s) c"
  by (auto simp: addMessage_def Let_def update_conv' split: option.splits)

lemma messages_clearMessages:
  "ch \<noteq> [] \<Longrightarrow>
     map_of (messages (clearMessages toLowerCase s (Some ch))) = (map_of (messages s))(toLowerCase ch := None)"
  by (simp add: clearMessages_def delete_conv')

lemma bound_clearMessages [simp]:
  "maxMessagesPerChannel (clearMessages toLowerCase s ch) = maxMessagesPerChannel s"
  by (simp add: clearMessages_def)

text \<open>
  Claim C10, as amended. \<open>addMessage m\<close> leaves the entry of every channel other than the
  lower-cased channel of \<open>m\<close> as it was, and the bound as it was. For a channel name \<open>ch\<close>
  that is not empty, \<open>clearMessages ch\<close> removes the entry of lower-cased \<open>ch\<close> and leaves
  every other entry and the bound as they were. With the empty name, as with no name,
  \<open>clearMessages\<close> removes every channel: the guard \<open>if (channel)\<close> takes the empty
  string for an absent one.
\<close>

theorem store_frame:
  "(c \<noteq> toLowerCase (channel m) \<longrightarrow>
      map_of (messages (addMessage toLowerCase s m)) c = map_of (messages s) c)
   \<and> maxMessagesPerChannel (addMessage toLowerCase s m) = maxMessagesPerChannel s
   \<and> (ch \<noteq> [] \<longrightarrow>
        map_of (messages (clearMessages toLowerCase s (Some ch)))
          = (map_of (messages s))(toLowerCase ch := None))
   \<and> maxMessagesPerChannel (clearMessages toLowerCase s (Some ch)) = maxMessagesPerChannel s
   \<and> messages (clearMessages toLowerCase s (Some [])) = []
   \<and> messages (clearMessages toLowerCase s None) = []"
proof -
  have "messages (clearMessages toLowerCase s (Some [])) = []" "messages (clearMessages toLowerCase s None) = []"
    by (simp_all add: clearMessages_def)
  then show ?thesis
    by (simp add: messages_addMessage_other messages_clearMessages)
qed

text \<open>
  On the second example: adding to \<open>foo\<close> and clearing \<open>FOO\<close> both leave \<open>bar\<close> alone, and
  clearing \<open>FOO\<close> removes \<open>foo\<close>.
\<close>

theorem store_frame_witness:
  "''bar'' \<noteq> ascii_toLowerCase (channel (chat_message ''Foo'' ''ann'' ''hi'' 30))
   \<and> map_of (messages (addMessage ascii_toLowerCase sample_chat (chat_message ''Foo'' ''ann'' ''hi'' 30))) ''bar''
       = Some [chat_message ''bar'' ''ANNA'' ''bye'' 15]
   \<and> ''FOO'' \<noteq> []
   \<and> map_of (messages (clearMessages ascii_toLowerCase sample_chat (Some ''FOO''))) ''bar''
       = Some [chat_message ''bar'' ''ANNA'' ''bye'' 15]
   \<and> map_of (messages (clearMessages ascii_toLowerCase sample_chat (Some ''FOO''))) ''foo'' = None"
  using store_frame[where toLowerCase = ascii_toLowerCase and c = "''bar''" and s = sample_chat
      and m = "chat_message ''Foo'' ''ann'' ''hi'' 30" and ch = "''FOO''"]
  by (simp add: messages_sample_chat ascii_toLowerCase_def ascii_toLowerCase_char_def chat_message_def)

text \<open>
  The claim as stated, for every channel, fails at the empty name: \<open>foo\<close> is another
  channel, it has messages, and \<open>clearMessages('')\<close> removes them.
\<close>

theorem clearMessages_empty_name_counterexample:
  "''foo'' \<noteq> ascii_toLowerCase ''''
   \<and> history sample_chat ''foo'' \<noteq> []
   \<and> history (clearMessages ascii_toLowerCase sample_chat (Some '''')) ''foo'' = []"
  by (simp add: clearMessages_def history_def messages_sample_chat ascii_toLowerCase_def)

section \<open>The \<open>filterMessages\<close> tool and dates it cannot parse\<close>

lemma slice_Nil [simp]: "slice a b [] = []"
  by (simp add: slice_def)

lemma paginate_Nil [simp]: "paginate f [] = []"
  by (simp add: paginate_def Let_def split: option.splits)

lemma invalid_since: "filter_since f = Some InvalidDate \<Longrightarrow> fst (filterMessages toLowerCase s f) = []"
  by (simp add: fst_filterMessages matches_since_def)

lemma invalid_until: "filter_until f = Some InvalidDate \<Longrightarrow> fst (filterMessages toLowerCase s f) = []"
  by (simp add: fst_filterMessages matches_until_def)

lemma isError_filterMessages_tool: "\<not> isError (fst (filterMessages_tool toLowerCase parseDate s a))"
  by (simp add: filterMessages_tool_def Let_def)

text \<open>
  Claim C5, as amended. When \<open>since\<close> or \<open>until\<close> is a non-empty string that the host
  does not parse, the call does not fail: the handler passes the invalid date on, no
  message passes the comparison with it, and the call answers with the text
  \<open>No messages found matching the filter criteria\<close> and no error flag. For no
  arguments at all does the handler answer with the error flag. There is no validation of
  the two strings in the program.
\<close>

theorem unparsable_date_proceeds:
  "((truthy (arg_since a) \<and> parseDate (the (arg_since a)) = InvalidDate)
    \<or> (truthy (arg_until a) \<and> parseDate (the (arg_until a)) = InvalidDate)
    \<longrightarrow> fst (filterMessages_tool toLowerCase parseDate s a)
         = \<lparr>content = [Literal ''No messages found matching the filter criteria''],
            isError = False\<rparr>)
   \<and> \<not> isError (fst (filterMessages_tool toLowerCase parseDate s a))"
proof (intro conjI impI)
  assume "(truthy (arg_since a) \<and> parseDate (the (arg_since a)) = InvalidDate)
    \<or> (truthy (arg_until a) \<and> parseDate (the (arg_until a)) = InvalidDate)"
  then have "filter_since (tool_filter parseDate a) = Some InvalidDate
      \<or> filter_until (tool_filter parseDate a) = Some InvalidDate"
    by (auto simp: tool_filter_def)
  then have "fst (filterMessages toLowerCase s (tool_filter parseDate a)) = []"
    using invalid_since invalid_until by blast
  then show "fst (filterMessages_tool toLowerCase parseDate s a)
         = \<lparr>content = [Literal ''No messages found matching the filter criteria''],
            isError = False\<rparr>"
    by (simp add: filterMessages_tool_def Let_def)
next
  show "\<not> isError (fst (filterMessages_tool toLowerCase parseDate s a))"
    by (rule isError_filterMessages_tool)
qed

text \<open>On the first example, with \<open>until\<close> the string \<open>yesterday\<close>.\<close>

theorem unparsable_date_proceeds_witness:
  "truthy (arg_until (no_args\<lparr>arg_until := Some ''yesterday''\<rparr>))
   \<and> sample_parseDate (the (arg_until (no_args\<lparr>arg_until := Some ''yesterday''\<rparr>))) = InvalidDate
   \<and> fst (filterMessages_tool ascii_toLowerCase sample_parseDate sample_store (no_args\<lparr>arg_until := Some ''yesterday''\<rparr>))
       = \<lparr>content = [Literal ''No messages found matching the filter criteria''],
          isError = False\<rparr>"
  using unparsable_date_proceeds[where toLowerCase = ascii_toLowerCase
      and a = "no_args\<lparr>arg_until := Some ''yesterday''\<rparr>"
      and parseDate = sample_parseDate and s = sample_store]
  by (simp add: no_args_def sample_parseDate_def)

text \<open>
  The claim as stated fails: with \<open>since\<close> the string \<open>not-a-date\<close> the call on channel
  \<open>foo\<close>, which has messages, is answered without the error flag.
\<close>

theorem unparsable_since_counterexample:
  "sample_parseDate ''not-a-date'' = InvalidDate
   \<and> history sample_chat ''foo'' \<noteq> []
   \<and> fst (filterMessages_tool ascii_toLowerCase sample_parseDate sample_chat
           (no_args\<lparr>arg_channel := Some ''foo'', arg_since := Some ''not-a-date''\<rparr>))
       = \<lparr>content = [Literal ''No messages found matching the filter criteria''],
          isError = False\<rparr>"
  by (simp add: filterMessages_tool_def Let_def tool_filter_def no_args_def sample_parseDate_def
      invalid_since history_def messages_sample_chat)

section \<open>Events, calls and runs of the connection manager\<close>

lemma on_event_calls [simp]: "transportCalls (on_event toLowerCase e s) = transportCalls s"
  by (cases e) (simp_all add: Let_def)

lemma on_event_fired [simp]: "timersFired (on_event toLowerCase e s) = timersFired s"
  by (cases e) (simp_all add: Let_def)

lemma fold_on_event_calls [simp]: "transportCalls (fold (on_event toLowerCase) evs s) = transportCalls s"
  by (induction evs arbitrary: s) simp_all

lemma fold_on_event_fired [simp]: "timersFired (fold (on_event toLowerCase) evs s) = timersFired s"
  by (induction evs arbitrary: s) simp_all

text \<open>What an event does to the retry counter and the timers depends on the counter only.\<close>

lemma on_event_attempts:
  "\<not> is_Connected e \<Longrightarrow>
     reconnectAttempts (on_event toLowerCase e s) =
       (if is_Disconnected e \<and> reconnectAttempts s < maxReconnectAttempts
        then reconnectAttempts s + 1 else reconnectAttempts s)"
  by (cases e) (simp_all add: Let_def)

lemma on_event_timers:
  "timers (on_event toLowerCase e s) =
       (if is_Disconnected e \<and> reconnectAttempts s < maxReconnectAttempts
        then timers s @ [reconnectInterval] else timers s)"
  by (cases e) (simp_all add: Let_def)

lemma retries_Nil [simp]: "retries a [] = 0"
  by (simp add: retries_def)

lemma retries_Cons:
  "retries a (e # evs) =
     (if is_Disconnected e \<and> a < maxReconnectAttempts then 1 + retries (a + 1) evs
      else retries a evs)"
  by (auto simp: retries_def)

lemma retries_append:
  "retries a (xs @ ys) = retries a xs + retries (a + retries a xs) ys"
  by (auto simp: retries_def min_def)

lemma fold_on_event_retries:
  "\<not> list_ex is_Connected evs \<Longrightarrow>
     reconnectAttempts (fold (on_event toLowerCase) evs s) = reconnectAttempts s + retries (reconnectAttempts s) evs
     \<and> timers (fold (on_event toLowerCase) evs s)
         = timers s @ replicate (retries (reconnectAttempts s) evs) reconnectInterval"
proof (induction evs arbitrary: s)
  case Nil
  then show ?case by simp
next
  case (Cons e evs)
  then have e: "\<not> is_Connected e" and rest: "\<not> list_ex is_Connected evs" by simp_all
  show ?case
    using Cons.IH[OF rest, of "on_event toLowerCase e s"] on_event_attempts[OF e, where s = s and toLowerCase = toLowerCase]
      on_event_timers[where e = e and s = s and toLowerCase = toLowerCase]
    by (simp add: retries_Cons replicate_app_Cons_same)
qed

text \<open>The methods change the counter, the timers and the channels through events only.\<close>

lemma on_event_calls_update:
  "on_event toLowerCase e (s\<lparr>transportCalls := c\<rparr>) = (on_event toLowerCase e s)\<lparr>transportCalls := c\<rparr>"
  by (cases e) (simp_all add: Let_def)

lemma on_event_fired_update:
  "on_event toLowerCase e (s\<lparr>timersFired := k\<rparr>) = (on_event toLowerCase e s)\<lparr>timersFired := k\<rparr>"
  by (cases e) (simp_all add: Let_def)

lemma fold_on_event_calls_update:
  "fold (on_event toLowerCase) evs (s\<lparr>transportCalls := c\<rparr>)
     = (fold (on_event toLowerCase) evs s)\<lparr>transportCalls := c\<rparr>"
  by (induction evs arbitrary: s) (simp_all add: on_event_calls_update)

lemma fold_on_event_fired_update:
  "fold (on_event toLowerCase) evs (s\<lparr>timersFired := k\<rparr>)
     = (fold (on_event toLowerCase) evs s)\<lparr>timersFired := k\<rparr>"
  by (induction evs arbitrary: s) (simp_all add: on_event_fired_update)

lemma await_eq:
  "await toLowerCase s call evs
     = (fold (on_event toLowerCase) evs s)\<lparr>transportCalls := transportCalls s @ [call]\<rparr>"
  by (simp add: await_def fold_on_event_calls_update)

lemma do_step_links: "same_links (do_step toLowerCase st s) (fold (on_event toLowerCase) (delivered st s) s)"
proof (cases st)
  case (Call_disconnect evs r)
  then show ?thesis
    by (cases r) (simp_all add: same_links_def disconnect_def await_eq)
next
  case (Timer evs r)
  then show ?thesis
    by (cases r)
      (simp_all add: same_links_def timer_fires_def connect_def settle_def await_eq
        fold_on_event_fired_update)
qed (auto simp: same_links_def connect_def joinChannel_def leaveChannel_def sendMessage_def
    settle_def await_eq split: reply.splits)

lemma run_retries:
  "\<not> list_ex is_Connected (trace toLowerCase steps s) \<Longrightarrow>
     reconnectAttempts (run toLowerCase steps s) = reconnectAttempts s + retries (reconnectAttempts s) (trace toLowerCase steps s)
     \<and> timers (run toLowerCase steps s)
         = timers s @ replicate (retries (reconnectAttempts s) (trace toLowerCase steps s)) reconnectInterval"
proof (induction steps arbitrary: s)
  case Nil
  then show ?case by (simp add: run_def)
next
  case (Cons st steps)
  let ?s1 = "do_step toLowerCase st s"
  let ?d = "delivered st s"
  from Cons.prems have d: "\<not> list_ex is_Connected ?d"
    and rest: "\<not> list_ex is_Connected (trace toLowerCase steps ?s1)"
    by (auto simp: list_ex_iff)
  have links: "reconnectAttempts ?s1 = reconnectAttempts (fold (on_event toLowerCase) ?d s)"
    "timers ?s1 = timers (fold (on_event toLowerCase) ?d s)"
    using do_step_links[where st = st and s = s and toLowerCase = toLowerCase] by (simp_all add: same_links_def)
  have a1: "reconnectAttempts ?s1 = reconnectAttempts s + retries (reconnectAttempts s) ?d"
    and t1: "timers ?s1 = timers s @ replicate (retries (reconnectAttempts s) ?d) reconnectInterval"
    using fold_on_event_retries[OF d, where s = s and toLowerCase = toLowerCase] links by simp_all
  have step_run: "run toLowerCase (st # steps) s = run toLowerCase steps ?s1" by (simp add: run_def)
  show ?case
    using Cons.IH[OF rest] a1 t1
    by (simp add: step_run retries_append replicate_add)
qed

lemma self_joined_append [simp]: "self_joined (xs @ ys) = self_joined xs @ self_joined ys"
  by (induction xs rule: self_joined.induct) simp_all

lemma self_parted_append [simp]: "self_parted (xs @ ys) = self_parted xs @ self_parted ys"
  by (induction xs rule: self_parted.induct) simp_all

lemma set_set_add [simp]: "set (set_add x xs) = insert x (set xs)"
  by (auto simp: set_add_def)

lemma set_set_delete [simp]: "set (set_delete x xs) = set xs - {x}"
  by (simp add: set_delete_def)

lemma on_event_channels:
  "set (channels (on_event toLowerCase e s)) \<subseteq> set (channels s) \<union> set (self_joined [e])
   \<and> set (channels s) - set (self_parted [e]) \<subseteq> set (channels (on_event toLowerCase e s))"
  by (cases e) (auto simp: Let_def)

lemma fold_on_event_channels:
  "set (channels (fold (on_event toLowerCase) evs s)) \<subseteq> set (channels s) \<union> set (self_joined evs)
   \<and> set (channels s) - set (self_parted evs) \<subseteq> set (channels (fold (on_event toLowerCase) evs s))"
proof (induction evs arbitrary: s)
  case Nil
  then show ?case by simp
next
  case (Cons e evs)
  have j: "self_joined (e # evs) = self_joined [e] @ self_joined evs"
    and p: "self_parted (e # evs) = self_parted [e] @ self_parted evs"
    using self_joined_append[of "[e]" evs] self_parted_append[of "[e]" evs] by simp_all
  show ?case
    using Cons.IH[of "on_event toLowerCase e s"] on_event_channels[where e = e and s = s and toLowerCase = toLowerCase]
    unfolding j p by auto
qed

lemma run_channels:
  "set (channels (run toLowerCase steps s)) \<subseteq> set (channels s) \<union> set (self_joined (trace toLowerCase steps s))
   \<and> set (channels s) - set (self_parted (trace toLowerCase steps s)) \<subseteq> set (channels (run toLowerCase steps s))"
proof (induction steps arbitrary: s)
  case Nil
  then show ?case by (simp add: run_def)
next
  case (Cons st steps)
  let ?s1 = "do_step toLowerCase st s"
  have "channels ?s1 = channels (fold (on_event toLowerCase) (delivered st s) s)"
    using do_step_links[where st = st and s = s and toLowerCase = toLowerCase] by (simp add: same_links_def)
  then have one: "set (channels ?s1) \<subseteq> set (channels s) \<union> set (self_joined (delivered st s))"
      "set (channels s) - set (self_parted (delivered st s)) \<subseteq> set (channels ?s1)"
    using fold_on_event_channels[where evs = "delivered st s" and s = s
        and toLowerCase = toLowerCase] by simp_all
  have step_run: "run toLowerCase (st # steps) s = run toLowerCase steps ?s1" by (simp add: run_def)
  show ?case
    using Cons.IH[of ?s1] one unfolding step_run by auto
qed

lemma set_new_Set [simp]: "set (new_Set xs) = set xs"
proof -
  have "set (foldl (\<lambda>acc x. set_add x acc) ys xs) = set ys \<union> set xs" for ys
    by (induction xs arbitrary: ys) auto
  then show ?thesis by (simp add: new_Set_def)
qed

text \<open>The example clients and runs, evaluated.\<close>

lemma sample_client_eq:
  "sample_client =
     \<lparr>channels = [''foo''], connected = False, reconnectAttempts = 0,
      messageStore = default_MessageStore, timers = [], timersFired = 0, transportCalls = []\<rparr>"
  by (simp add: sample_client_def new_TwitchClient_def sample_options_def new_Set_def set_add_def
      ascii_toLowerCase_def ascii_toLowerCase_char_def)

lemma connected_client_eq:
  "connected_client =
     \<lparr>channels = [''foo''], connected = True, reconnectAttempts = 0,
      messageStore = default_MessageStore, timers = [], timersFired = 0, transportCalls = []\<rparr>"
  by (simp add: connected_client_def sample_client_eq)

lemma run_six_drops:
  "run ascii_toLowerCase six_drops sample_client =
     \<lparr>channels = [''foo''], connected = False, reconnectAttempts = 5,
      messageStore = default_MessageStore,
      timers = [5000, 5000, 5000, 5000, 5000], timersFired = 1, transportCalls = [T_connect]\<rparr>"
  by (simp add: run_def six_drops_def sample_client_eq Let_def maxReconnectAttempts_def
      reconnectInterval_def timer_fires_def connect_def settle_def await_def)

lemma trace_six_drops:
  "trace ascii_toLowerCase six_drops sample_client =
     [Disconnected ''drop'', Disconnected ''drop'', Disconnected ''drop'',
      Connecting, Disconnected ''refused'',
      Disconnected ''drop'', Disconnected ''drop'', Disconnected ''drop'']"
  by (simp add: six_drops_def sample_client_eq Let_def maxReconnectAttempts_def
      reconnectInterval_def timer_fires_def connect_def settle_def await_def)

lemma run_join_and_part:
  "channels (run ascii_toLowerCase join_and_part sample_client) = [''bar'']
   \<and> self_joined (trace ascii_toLowerCase join_and_part sample_client) = [''foo'', ''bar'']
   \<and> self_parted (trace ascii_toLowerCase join_and_part sample_client) = [''foo'']"
  by (simp add: run_def join_and_part_def sample_client_eq Let_def maxReconnectAttempts_def
      reconnectInterval_def connect_def joinChannel_def leaveChannel_def settle_def await_def
      set_add_def set_delete_def replace_hash_def)

section \<open>The reconnection bound\<close>

text \<open>
  Claim C7. Take any run of the client from any state: events, calls of the methods with
  whatever the transport does during them, timers firing. If no \<open>connected\<close> event
  reaches the handlers in the run, the number of reconnections scheduled in it is the
  number of \<open>disconnected\<close> events that reach the handlers, capped at what is left of the
  budget, \<open>maxReconnectAttempts\<close> less the retry counter at the start; the counter
  rises by the same number. So from a counter of 0 the first five \<open>disconnected\<close> events
  schedule a reconnection each, and no later one does. The budget is 5. A \<open>connected\<close>
  event sets the counter to 0, and so does a call of \<open>connect\<close> in a disconnected state
  that the transport resolves after reporting \<open>connected\<close>.
\<close>

theorem reconnection_bound:
  "(\<not> list_ex is_Connected (trace toLowerCase steps s) \<longrightarrow>
      length (timers (run toLowerCase steps s)) =
        length (timers s)
          + min (maxReconnectAttempts - reconnectAttempts s)
                (length (filter is_Disconnected (trace toLowerCase steps s)))
      \<and> reconnectAttempts (run toLowerCase steps s) =
        reconnectAttempts s
          + min (maxReconnectAttempts - reconnectAttempts s)
                (length (filter is_Disconnected (trace toLowerCase steps s))))
   \<and> maxReconnectAttempts = 5
   \<and> reconnectAttempts (on_event toLowerCase (Connected address port) s) = 0
   \<and> (\<not> connected s \<longrightarrow>
        reconnectAttempts (snd (connect toLowerCase s (evs @ [Connected address port]) Resolved)) = 0)"
proof (intro conjI impI)
  assume quiet: "\<not> list_ex is_Connected (trace toLowerCase steps s)"
  show "length (timers (run toLowerCase steps s)) =
        length (timers s)
          + min (maxReconnectAttempts - reconnectAttempts s)
                (length (filter is_Disconnected (trace toLowerCase steps s)))"
    using run_retries[OF quiet] by (simp add: retries_def)
  show "reconnectAttempts (run toLowerCase steps s) =
        reconnectAttempts s
          + min (maxReconnectAttempts - reconnectAttempts s)
                (length (filter is_Disconnected (trace toLowerCase steps s)))"
    using run_retries[OF quiet] by (simp add: retries_def)
next
  show "maxReconnectAttempts = 5" by (simp add: maxReconnectAttempts_def)
  show "reconnectAttempts (on_event toLowerCase (Connected address port) s) = 0" by simp
next
  assume "\<not> connected s"
  then show "reconnectAttempts (snd (connect toLowerCase s (evs @ [Connected address port]) Resolved)) = 0"
    by (simp add: connect_def settle_def await_eq)
qed

text \<open>
  On the first example run: seven \<open>disconnected\<close> events and no \<open>connected\<close> one reach
  the handlers, five reconnections are scheduled, the counter is 5, and a \<open>connect\<close> that
  succeeds then sets it to 0.
\<close>

theorem reconnection_bound_witness:
  "\<not> list_ex is_Connected (trace ascii_toLowerCase six_drops sample_client)
   \<and> length (filter is_Disconnected (trace ascii_toLowerCase six_drops sample_client)) = 7
   \<and> length (timers (run ascii_toLowerCase six_drops sample_client)) = 5
   \<and> reconnectAttempts (run ascii_toLowerCase six_drops sample_client) = 5
   \<and> \<not> connected (run ascii_toLowerCase six_drops sample_client)
   \<and> reconnectAttempts
        (snd (connect ascii_toLowerCase (run ascii_toLowerCase six_drops sample_client)
               ([Connecting] @ [Connected ''irc-ws.chat.twitch.tv'' 443]) Resolved)) = 0"
  using reconnection_bound[where toLowerCase = ascii_toLowerCase and steps = six_drops
      and s = sample_client and address = "''irc-ws.chat.twitch.tv''" and port = 443,
      unfolded maxReconnectAttempts_def]
    reconnection_bound[where toLowerCase = ascii_toLowerCase and steps = "[]"
      and s = "run ascii_toLowerCase six_drops sample_client"
      and address = "''irc-ws.chat.twitch.tv''" and port = 443 and evs = "[Connecting]",
      unfolded maxReconnectAttempts_def]
    trace_six_drops run_six_drops
  by (simp add: sample_client_eq)

section \<open>Sending a message\<close>

text \<open>
  Claim C8. When the client is not connected, \<open>sendMessage\<close> fails with the
  not-connected error and leaves the state as it was: no call on the transport. When it
  is connected, it makes the call \<open>say\<close> with the channel name and the text on the
  transport; if the transport resolves the call succeeds, and if the transport rejects
  the call fails with the rejection (the \<open>SendError\<close> of the specification).
\<close>

theorem sendMessage_guard:
  "(\<not> connected s \<longrightarrow> sendMessage toLowerCase s ch body evs r = (Inl NotConnectedError, s))
   \<and> (connected s \<longrightarrow>
        transportCalls (snd (sendMessage toLowerCase s ch body evs r))
          = transportCalls s @ [T_say (channelName toLowerCase ch) body]
        \<and> fst (sendMessage toLowerCase s ch body evs Resolved) = Inr ()
        \<and> fst (sendMessage toLowerCase s ch body evs (Rejected e)) = Inl (TransportError e))"
proof (intro conjI impI)
  assume "\<not> connected s"
  then show "sendMessage toLowerCase s ch body evs r = (Inl NotConnectedError, s)"
    by (simp add: sendMessage_def)
next
  assume c: "connected s"
  show "transportCalls (snd (sendMessage toLowerCase s ch body evs r))
          = transportCalls s @ [T_say (channelName toLowerCase ch) body]"
    using c by (cases r) (simp_all add: sendMessage_def settle_def await_eq)
  show "fst (sendMessage toLowerCase s ch body evs Resolved) = Inr ()"
    using c by (simp add: sendMessage_def settle_def)
  show "fst (sendMessage toLowerCase s ch body evs (Rejected e)) = Inl (TransportError e)"
    using c by (simp add: sendMessage_def settle_def)
qed

text \<open>On the example client, before and after it is connected.\<close>

theorem sendMessage_guard_witness:
  "\<not> connected sample_client
   \<and> sendMessage ascii_toLowerCase sample_client ''foo'' ''hi'' [] Resolved = (Inl NotConnectedError, sample_client)
   \<and> connected connected_client
   \<and> transportCalls (snd (sendMessage ascii_toLowerCase connected_client ''foo'' ''hi'' [] Resolved))
       = [T_say ''#foo'' ''hi'']
   \<and> fst (sendMessage ascii_toLowerCase connected_client ''foo'' ''hi'' [] Resolved) = Inr ()
   \<and> fst (sendMessage ascii_toLowerCase connected_client ''foo'' ''hi'' [] (Rejected ''no'')) = Inl (TransportError ''no'')"
  using sendMessage_guard[where toLowerCase = ascii_toLowerCase and s = sample_client
      and ch = "''foo''" and body = "''hi''" and evs = "[]" and r = Resolved]
    sendMessage_guard[where toLowerCase = ascii_toLowerCase and s = connected_client
      and ch = "''foo''" and body = "''hi''" and evs = "[]" and r = Resolved and e = "''no''"]
  by (simp add: sample_client_eq connected_client_eq channelName_def ascii_toLowerCase_def
      ascii_toLowerCase_char_def)

section \<open>Explicit disconnect\<close>

lemma fold_on_event_no_drop:
  "\<not> list_ex is_Disconnected evs \<Longrightarrow> timers (fold (on_event toLowerCase) evs s) = timers s"
  by (induction evs arbitrary: s) (simp_all add: on_event_timers)

text \<open>
  What \<open>disconnect\<close> does, whatever the transport does during the call. In a state that is
  not connected it changes nothing and makes no call on the transport. In a connected
  state it makes the call \<open>disconnect\<close> on the transport; if the transport resolves, the
  call succeeds and the state is not connected. The method sets no timer of its own: the
  timers and the retry counter after the call are those that the events delivered during
  the call produce.
\<close>

lemma disconnect_effect:
  "(\<not> connected s \<longrightarrow> disconnect toLowerCase s evs r = (Inr (), s))
   \<and> (connected s \<longrightarrow>
        transportCalls (snd (disconnect toLowerCase s evs r)) = transportCalls s @ [T_disconnect]
        \<and> fst (disconnect toLowerCase s evs Resolved) = Inr ()
        \<and> \<not> connected (snd (disconnect toLowerCase s evs Resolved))
        \<and> timers (snd (disconnect toLowerCase s evs r))
            = timers (fold (on_event toLowerCase) evs s)
        \<and> reconnectAttempts (snd (disconnect toLowerCase s evs r))
            = reconnectAttempts (fold (on_event toLowerCase) evs s))"
proof (intro conjI impI)
  assume "\<not> connected s"
  then show "disconnect toLowerCase s evs r = (Inr (), s)" by (simp add: disconnect_def)
next
  assume c: "connected s"
  show "transportCalls (snd (disconnect toLowerCase s evs r)) = transportCalls s @ [T_disconnect]"
    using c by (cases r) (simp_all add: disconnect_def await_eq)
  show "fst (disconnect toLowerCase s evs Resolved) = Inr ()"
    using c by (simp add: disconnect_def)
  show "\<not> connected (snd (disconnect toLowerCase s evs Resolved))"
    using c by (simp add: disconnect_def)
  show "timers (snd (disconnect toLowerCase s evs r))
      = timers (fold (on_event toLowerCase) evs s)"
    using c by (cases r) (simp_all add: disconnect_def await_eq)
  show "reconnectAttempts (snd (disconnect toLowerCase s evs r))
      = reconnectAttempts (fold (on_event toLowerCase) evs s)"
    using c by (cases r) (simp_all add: disconnect_def await_eq)
qed

text \<open>
  The transport reports a close that was asked for like any other, with a \<open>disconnected\<close>
  event. From every connected state with the retry counter below the budget, the call
  then ends with one more reconnect timer: the handler of \<open>disconnected\<close> has no regard to
  whether the close was asked for.
\<close>

lemma disconnect_sets_timer:
  assumes "connected s" and "reconnectAttempts s < maxReconnectAttempts"
  shows "timers (snd (disconnect toLowerCase s [Disconnected reason] Resolved))
           = timers s @ [reconnectInterval]"
  using assms by (simp add: disconnect_def await_eq Let_def)

text \<open>
  Claim C6, on the example client, connected and with no timer set. The part of the
  claim on a client that is not connected holds (\<open>disconnect_effect\<close>). On the connected
  client \<open>disconnect\<close> is called; the transport closes the connection, reports it with the
  event \<open>disconnected\<close> (tmi.js: reason \<open>Connection closed.\<close>) and resolves. The claim says
  that no reconnection is scheduled. The program ends the call not connected, with the
  retry counter at 1 and a timer set to reconnect after 5000 ms; when the timer fires and
  the transport connects, the client is connected again, although it was told to
  disconnect.
\<close>

theorem disconnect_reconnects:
  "connected connected_client
   \<and> timers connected_client = []
   \<and> \<not> connected
        (snd (disconnect ascii_toLowerCase connected_client
               [Disconnected ''Connection closed.''] Resolved))
   \<and> timers
        (snd (disconnect ascii_toLowerCase connected_client
               [Disconnected ''Connection closed.''] Resolved)) = [5000]
   \<and> reconnectAttempts
        (snd (disconnect ascii_toLowerCase connected_client
               [Disconnected ''Connection closed.''] Resolved)) = 1
   \<and> connected
        (timer_fires ascii_toLowerCase
          (snd (disconnect ascii_toLowerCase connected_client
                 [Disconnected ''Connection closed.''] Resolved))
          [Connecting, Connected ''irc-ws.chat.twitch.tv'' 443] Resolved)"
  by (simp add: connected_client_eq disconnect_def timer_fires_def connect_def settle_def
      await_def Let_def maxReconnectAttempts_def reconnectInterval_def)

section \<open>The joined channels\<close>

text \<open>
  Claim C9, as amended. Over every run of the client after construction, a channel that is
  in the set at the end was in it at the start or is the channel of a \<open>join\<close> event for the
  bot itself that reached the handlers; a channel that was in the set at the start and is
  not the channel of a \<open>part\<close> event for the bot itself is in the set at the end. So
  nothing but a self-join adds a channel and nothing but a self-part removes one: no
  disconnect clears the set. At construction the set is the lower-cased channels of the
  options, before any acknowledgment.
\<close>

theorem joinedChannels_changes:
  "set (channels (run toLowerCase steps s)) \<subseteq> set (channels s) \<union> set (self_joined (trace toLowerCase steps s))
   \<and> set (channels s) - set (self_parted (trace toLowerCase steps s)) \<subseteq> set (channels (run toLowerCase steps s))
   \<and> set (channels (new_TwitchClient toLowerCase options st)) =
       toLowerCase ` set (case opt_channels options of None \<Rightarrow> [] | Some cs \<Rightarrow> cs)"
proof (intro conjI)
  show "set (channels (run toLowerCase steps s)) \<subseteq> set (channels s) \<union> set (self_joined (trace toLowerCase steps s))"
    using run_channels[where steps = steps and s = s and toLowerCase = toLowerCase] by blast
  show "set (channels s) - set (self_parted (trace toLowerCase steps s)) \<subseteq> set (channels (run toLowerCase steps s))"
    using run_channels[where steps = steps and s = s and toLowerCase = toLowerCase] by blast
  show "set (channels (new_TwitchClient toLowerCase options st)) =
       toLowerCase ` set (case opt_channels options of None \<Rightarrow> [] | Some cs \<Rightarrow> cs)"
    by (simp add: new_TwitchClient_def)
qed

text \<open>
  On the second example run: \<open>foo\<close> and \<open>bar\<close> are acknowledged as joined, \<open>foo\<close> as
  parted, and the set ends as \<open>bar\<close>.
\<close>

theorem joinedChannels_changes_witness:
  "channels sample_client = [''foo'']
   \<and> self_joined (trace ascii_toLowerCase join_and_part sample_client) = [''foo'', ''bar'']
   \<and> self_parted (trace ascii_toLowerCase join_and_part sample_client) = [''foo'']
   \<and> channels (run ascii_toLowerCase join_and_part sample_client) = [''bar'']
   \<and> set (channels (run ascii_toLowerCase join_and_part sample_client))
       \<subseteq> set (channels sample_client) \<union> set (self_joined (trace ascii_toLowerCase join_and_part sample_client))"
  using joinedChannels_changes[where toLowerCase = ascii_toLowerCase and steps = join_and_part
      and s = sample_client] run_join_and_part
  by (simp add: sample_client_eq)

text \<open>
  The claim as stated fails at construction: with the channel \<open>Foo\<close> configured, the set
  holds \<open>foo\<close> before any event has reached the client.
\<close>

theorem constructor_seeds_channels_counterexample:
  "trace ascii_toLowerCase [] (new_TwitchClient ascii_toLowerCase sample_options default_MessageStore) = []
   \<and> channels (run ascii_toLowerCase [] (new_TwitchClient ascii_toLowerCase sample_options default_MessageStore)) = [''foo'']"
  using sample_client_eq by (simp add: sample_client_def run_def)

end
